theory Spec2Isabelle
  imports Complex_Main
begin

section \<open>Data model of \<open>SmartTrafficManager\<close>\<close>

text \<open>
  The class \<open>SmartTrafficManager\<close> of \<open>TrafficManagement.py\<close> keeps three configuration
  fields and two arrays. A finite float is modelled as a \<open>real\<close> and rounding is left out:
  a sum, product or quotient is the exact one. Overflow is modelled where the class adds up
  a whole vector, in \<open>predicted_counts.sum()\<close> (see \<open>np_sum\<close>). A one-dimensional array is a
  list, the two-dimensional array \<open>vehicle_counts\<close> is the list of its rows (row 0 first).
\<close>

datatype error = ValueError | ZeroDivisionError | IndexError | LinAlgError

record manager =
  num_lanes :: int
  history_length :: int
  cycle_length :: real
  vehicle_counts :: "real list list"
  signal_timings :: "real list"

text \<open>The dictionary returned by \<open>simulate_step\<close>; its key \<open>'signal_timings'\<close> is the field
  \<open>res_signal_timings\<close>.\<close>

record step_result =
  latest_counts :: "real list"
  predicted_counts :: "real list"
  res_signal_timings :: "real list"

section \<open>The numpy and Python primitives the class calls\<close>

text \<open>
  numpy counts the bytes of an array in a signed integer of 64 bits. An element takes 8
  bytes; the dimensions of size 0 are left out of the product. A shape whose byte count
  does not fit is refused with \<open>ValueError\<close>, as is a dimension that does not fit itself.
\<close>

definition array_too_big :: "int list \<Rightarrow> bool" where
  "array_too_big dims \<longleftrightarrow> 2 ^ 63 \<le> 8 * prod_list (filter (\<lambda>d. d \<noteq> 0) dims)"

text \<open>
  \<open>np.zeros((r, c))\<close>: a negative dimension raises \<open>ValueError\<close>, and so does a shape that
  is too big. Running out of memory for a shape within that limit is outside the model.
\<close>

definition np_zeros2 :: "int \<Rightarrow> int \<Rightarrow> error + real list list" where
  "np_zeros2 r c =
     (if r < 0 \<or> c < 0 then Inl ValueError
      else if array_too_big [r, c] then Inl ValueError
      else Inr (replicate (nat r) (replicate (nat c) 0)))"

text \<open>
  \<open>np.zeros(n)\<close>, \<open>np.ones(n)\<close> and \<open>np.full(n, v)\<close>. The class calls them with a dimension
  of the buffer that \<open>np.zeros((r, c))\<close> has allocated before, so the size limit is met
  whenever they are reached.
\<close>

definition np_full :: "int \<Rightarrow> real \<Rightarrow> error + real list" where
  "np_full n v = (if n < 0 then Inl ValueError else Inr (replicate (nat n) v))"

definition np_zeros :: "int \<Rightarrow> error + real list" where
  "np_zeros n = np_full n 0"

definition np_ones :: "int \<Rightarrow> error + real list" where
  "np_ones n = np_full n 1"

text \<open>\<open>np.arange(n)\<close> is empty for \<open>n \<le> 0\<close>.\<close>

definition np_arange :: "int \<Rightarrow> real list" where
  "np_arange n = map real [0..<nat n]"

text \<open>Python's \<open>a / b\<close> on numbers raises \<open>ZeroDivisionError\<close> for \<open>b = 0\<close>.\<close>

definition py_truediv :: "real \<Rightarrow> int \<Rightarrow> error + real" where
  "py_truediv a b = (if b = 0 then Inl ZeroDivisionError else Inr (a / real_of_int b))"

text \<open>
  \<open>a[:-1] = a[1:]\<close> on the rows of an array: numpy copies an overlapping source first, so
  every row but the last takes the value of its successor and the last row stays.
\<close>

definition shift_rows :: "'a list \<Rightarrow> 'a list" where
  "shift_rows a = drop 1 a @ drop (length a - 1) a"

text \<open>
  Assigning a vector to a row of width \<open>w\<close> follows numpy's broadcasting: a vector of length
  \<open>w\<close> is copied, a vector of length 1 is repeated \<open>w\<close> times, any other length raises
  \<open>ValueError\<close>.
\<close>

definition broadcast_row :: "nat \<Rightarrow> real list \<Rightarrow> error + real list" where
  "broadcast_row w v =
     (if length v = w then Inr v
      else if length v = 1 then Inr (replicate w (hd v))
      else Inl ValueError)"

text \<open>\<open>a[:, lane]\<close>: the column of the array; an index beyond the width raises \<open>IndexError\<close>.\<close>

definition column :: "real list list \<Rightarrow> nat \<Rightarrow> error + real list" where
  "column a lane =
     (if \<forall>row \<in> set a. lane < length row then Inr (map (\<lambda>row. row ! lane) a)
      else Inl IndexError)"

text \<open>
  \<open>np.linalg.lstsq(A, y, rcond=None)\<close> for a matrix \<open>A\<close> of two columns, given as the list of
  its rows. numpy returns the solution of least Euclidean norm among the minimisers of
  \<open>||A \<beta> - y||\<^sup>2\<close>; in exact arithmetic that is the solution of the normal equations when
  \<open>A\<close> has rank 2, \<open>A\<^sup>T y / ||A||\<^sup>2\<close> when it has rank 1 and zero when \<open>A\<close> is zero or
  empty. Row counts that differ raise \<open>LinAlgError\<close>.
\<close>

definition lstsq :: "(real \<times> real) list \<Rightarrow> real list \<Rightarrow> error + real \<times> real" where
  "lstsq A y =
     (if length A \<noteq> length y then Inl LinAlgError
      else
        let saa = (\<Sum>(a, b) \<leftarrow> A. a * a);
            sab = (\<Sum>(a, b) \<leftarrow> A. a * b);
            sbb = (\<Sum>(a, b) \<leftarrow> A. b * b);
            say = (\<Sum>((a, b), v) \<leftarrow> zip A y. a * v);
            sby = (\<Sum>((a, b), v) \<leftarrow> zip A y. b * v);
            det = saa * sbb - sab * sab
        in if det \<noteq> 0 then Inr ((sbb * say - sab * sby) / det, (saa * sby - sab * say) / det)
           else if saa + sbb = 0 then Inr (0, 0)
           else Inr (say / (saa + sbb), sby / (saa + sbb)))"

text \<open>\<open>beta.dot(x)\<close> for vectors of length two.\<close>

definition dot :: "real \<times> real \<Rightarrow> real \<times> real \<Rightarrow> real" where
  "dot u v = fst u * fst v + snd u * snd v"

text \<open>
  \<open>a.sum()\<close> on a vector of floats. A float sum that reaches \<open>2 ^ 1024 - 2 ^ 970\<close> in magnitude
  rounds to an infinity, and an infinity stays when finite numbers are added to it. The
  elements are added from left to right, which is numpy's order for fewer than 8 elements;
  for elements that are all non-negative the order makes no difference to the result
  (\<open>np_sum_nonneg\<close> below). Rounding is left out: for elements of mixed sign it can
  cancel a sum that is not zero to a float zero, so the facts below that depend on the
  total are about non-negative elements, whose float sum is zero only when all are zero.
\<close>

datatype float_sum = Finite real | PlusInf | MinusInf

definition float_overflow :: real where
  "float_overflow = 2 ^ 1024 - 2 ^ 970"

definition overflow :: "real \<Rightarrow> float_sum" where
  "overflow x =
     (if float_overflow \<le> x then PlusInf
      else if x \<le> - float_overflow then MinusInf
      else Finite x)"

fun float_add :: "float_sum \<Rightarrow> real \<Rightarrow> float_sum" where
  "float_add (Finite a) x = overflow (a + x)"
| "float_add PlusInf x = PlusInf"
| "float_add MinusInf x = MinusInf"

definition np_sum :: "real list \<Rightarrow> float_sum" where
  "np_sum a = foldl float_add (Finite 0) a"

text \<open>
  \<open>p / total\<close> for a finite \<open>p\<close>: a finite number divided by an infinity is zero. The
  quotient of two finite numbers is taken exactly; it cannot overflow when \<open>0 \<le> p \<le> total\<close>,
  which holds for the components of a non-negative vector and their sum.
\<close>

fun div_total :: "real \<Rightarrow> float_sum \<Rightarrow> real" where
  "div_total p (Finite t) = p / t"
| "div_total p PlusInf = 0"
| "div_total p MinusInf = 0"

section \<open>The methods of \<open>SmartTrafficManager\<close>\<close>

text \<open>
  A method takes the manager and returns its result, or the exception it raised, together
  with the manager as the method left it: an exception does not undo the assignments made
  before it.
\<close>

definition init :: "int \<Rightarrow> int \<Rightarrow> real \<Rightarrow> error + manager" where
  "init L H c =
     (case np_zeros2 H L of
        Inl e \<Rightarrow> Inl e
      | Inr vc \<Rightarrow>
          (case py_truediv c L of
             Inl e \<Rightarrow> Inl e
           | Inr q \<Rightarrow>
               (case np_full L q of
                  Inl e \<Rightarrow> Inl e
                | Inr st \<Rightarrow>
                    Inr \<lparr>num_lanes = L, history_length = H, cycle_length = c,
                         vehicle_counts = vc, signal_timings = st\<rparr>)))"

definition update_vehicle_counts :: "manager \<Rightarrow> real list \<Rightarrow> (error + unit) \<times> manager" where
  "update_vehicle_counts m new_counts =
     (let vc = shift_rows (vehicle_counts m);
          m1 = m\<lparr>vehicle_counts := vc\<rparr>
      in if vc = [] then (Inl IndexError, m1)
         else (case broadcast_row (length (last vc)) new_counts of
                 Inl e \<Rightarrow> (Inl e, m1)
               | Inr row \<Rightarrow> (Inr (), m1\<lparr>vehicle_counts := vc[length vc - 1 := row]\<rparr>)))"

fun predict_loop ::
  "(real \<times> real) list \<Rightarrow> int \<Rightarrow> real list list \<Rightarrow> nat list \<Rightarrow> real list \<Rightarrow> error + real list"
where
  "predict_loop X_design H vc [] predicted = Inr predicted"
| "predict_loop X_design H vc (lane # lanes) predicted =
     (case column vc lane of
        Inl e \<Rightarrow> Inl e
      | Inr y \<Rightarrow>
          (case lstsq X_design y of
             Inl e \<Rightarrow> Inl e
           | Inr beta \<Rightarrow>
               (let x_next = (real_of_int H, 1);
                    pred = dot beta x_next
                in predict_loop X_design H vc lanes (predicted[lane := max pred 0]))))"

definition predict_congestion :: "manager \<Rightarrow> (error + real list) \<times> manager" where
  "predict_congestion m =
     (case np_zeros (num_lanes m) of
        Inl e \<Rightarrow> (Inl e, m)
      | Inr predicted \<Rightarrow>
          (let X = np_arange (history_length m) in
           case np_ones (history_length m) of
             Inl e \<Rightarrow> (Inl e, m)
           | Inr ones \<Rightarrow>
               (let X_design = zip X ones
                in (predict_loop X_design (history_length m) (vehicle_counts m)
                      [0..<nat (num_lanes m)] predicted, m))))"

definition optimize_signal_timings :: "manager \<Rightarrow> real list \<Rightarrow> (error + unit) \<times> manager" where
  "optimize_signal_timings m predicted =
     (let total = np_sum predicted
      in if total = Finite 0 then
           (case py_truediv (cycle_length m) (num_lanes m) of
              Inl e \<Rightarrow> (Inl e, m)
            | Inr q \<Rightarrow>
                (case np_full (num_lanes m) q of
                   Inl e \<Rightarrow> (Inl e, m)
                 | Inr st \<Rightarrow> (Inr (), m\<lparr>signal_timings := st\<rparr>)))
         else (Inr (), m\<lparr>signal_timings :=
                 map (\<lambda>p. div_total p total * cycle_length m) predicted\<rparr>))"

definition simulate_step :: "manager \<Rightarrow> real list \<Rightarrow> (error + step_result) \<times> manager" where
  "simulate_step m new_counts =
     (case update_vehicle_counts m new_counts of
        (Inl e, m1) \<Rightarrow> (Inl e, m1)
      | (Inr _, m1) \<Rightarrow>
          (case predict_congestion m1 of
             (Inl e, m2) \<Rightarrow> (Inl e, m2)
           | (Inr predicted, m2) \<Rightarrow>
               (case optimize_signal_timings m2 predicted of
                  (Inl e, m3) \<Rightarrow> (Inl e, m3)
                | (Inr _, m3) \<Rightarrow>
                    (Inr \<lparr>latest_counts = new_counts, predicted_counts = predicted,
                          res_signal_timings = signal_timings m3\<rparr>, m3))))"

section \<open>Notions used to state the properties\<close>

text \<open>The matrix \<open>X_design\<close> that \<open>predict_congestion\<close> builds for a window of \<open>H\<close> steps.\<close>

definition design :: "int \<Rightarrow> (real \<times> real) list" where
  "design H = zip (np_arange H) (replicate (nat H) 1)"

text \<open>The squared residual \<open>||A \<beta> - y||\<^sup>2\<close> that \<open>lstsq\<close> minimises.\<close>

definition sq_error :: "(real \<times> real) list \<Rightarrow> real list \<Rightarrow> real \<times> real \<Rightarrow> real" where
  "sq_error A y beta = (\<Sum>(x, v) \<leftarrow> zip A y. (dot beta x - v)\<^sup>2)"

text \<open>
  The specification's wording of the fit: a line \<open>(slope, intercept)\<close> is a least-squares
  fit of the observations \<open>y\<close> against the time indices \<open>0, 1, \<dots>, length y - 1\<close> when no
  other line has a smaller sum of squared vertical distances.
\<close>

definition line_sq_error :: "real list \<Rightarrow> real \<times> real \<Rightarrow> real" where
  "line_sq_error y beta = (\<Sum>t<length y. (fst beta * real t + snd beta - y ! t)\<^sup>2)"

definition least_squares_line :: "real list \<Rightarrow> real \<times> real \<Rightarrow> bool" where
  "least_squares_line y beta \<longleftrightarrow> (\<forall>beta'. line_sq_error y beta \<le> line_sq_error y beta')"

text \<open>
  The shape of the state: \<open>vehicle_counts\<close> is an array of \<open>history_length\<close> rows and
  \<open>num_lanes\<close> columns, with at least one lane. The constructor establishes it and every
  method keeps it (\<open>init_shaped\<close>, \<open>update_buffer_shape\<close>, \<open>simulate_step_shaped\<close> below).
\<close>

definition shaped :: "manager \<Rightarrow> bool" where
  "shaped m \<longleftrightarrow>
     0 < num_lanes m \<and> 0 \<le> history_length m \<and>
     length (vehicle_counts m) = nat (history_length m) \<and>
     (\<forall>row \<in> set (vehicle_counts m). length row = nat (num_lanes m))"

text \<open>The observations of one lane, oldest first.\<close>

definition lane_series :: "manager \<Rightarrow> nat \<Rightarrow> real list" where
  "lane_series m lane = map (\<lambda>row. row ! lane) (vehicle_counts m)"

text \<open>A caller making one call after the other, stopping at the first exception.\<close>

fun update_all :: "manager \<Rightarrow> real list list \<Rightarrow> (error + unit) \<times> manager" where
  "update_all m [] = (Inr (), m)"
| "update_all m (v # vs) =
     (case update_vehicle_counts m v of
        (Inl e, m1) \<Rightarrow> (Inl e, m1)
      | (Inr _, m1) \<Rightarrow> update_all m1 vs)"

fun simulate_steps :: "manager \<Rightarrow> real list list \<Rightarrow> (error + step_result list) \<times> manager" where
  "simulate_steps m [] = (Inr [], m)"
| "simulate_steps m (v # vs) =
     (case simulate_step m v of
        (Inl e, m1) \<Rightarrow> (Inl e, m1)
      | (Inr r, m1) \<Rightarrow>
          (case simulate_steps m1 vs of
             (Inl e, m2) \<Rightarrow> (Inl e, m2)
           | (Inr rs, m2) \<Rightarrow> (Inr (r # rs), m2)))"

text \<open>
  Concrete states used in the examples: a manager of two lanes and a window of two steps
  after the single update \<open>[1, 2]\<close>, a manager of four lanes with a cycle of 100 seconds, and
  the manager of three lanes whose window of five steps holds \<open>[10, 10, 10]\<close> throughout.
\<close>

definition example_manager :: manager where
  "example_manager =
     \<lparr>num_lanes = 2, history_length = 2, cycle_length = 120,
      vehicle_counts = [[0, 0], [1, 2]], signal_timings = [60, 60]\<rparr>"

definition four_lane_manager :: manager where
  "four_lane_manager =
     \<lparr>num_lanes = 4, history_length = 1, cycle_length = 100,
      vehicle_counts = [[0, 0, 0, 0]], signal_timings = [25, 25, 25, 25]\<rparr>"

definition steady_manager :: manager where
  "steady_manager =
     \<lparr>num_lanes = 3, history_length = 5, cycle_length = 120,
      vehicle_counts = replicate 5 [10, 10, 10], signal_timings = [40, 40, 40]\<rparr>"

section \<open>Auxiliary facts\<close>

subsection \<open>Least squares: the normal equations\<close>

lemma sq_error_expand:
  "(\<Sum>(x, v) \<leftarrow> zs. (dot (s', i') x - v)\<^sup>2) =
     (\<Sum>(x, v) \<leftarrow> zs. (dot (s, i) x - v)\<^sup>2)
     + (\<Sum>(x, v) \<leftarrow> zs. (dot (s' - s, i' - i) x)\<^sup>2)
     + 2 * (s' - s) * (\<Sum>(x, v) \<leftarrow> zs. fst x * (dot (s, i) x - v))
     + 2 * (i' - i) * (\<Sum>(x, v) \<leftarrow> zs. snd x * (dot (s, i) x - v))"
proof (induction zs)
  case Nil
  show ?case by simp
next
  case (Cons z zs)
  obtain a b v where z: "z = ((a, b), v)" by (metis surj_pair)
  show ?case
    unfolding z using Cons.IH
    by (simp add: dot_def power2_eq_square algebra_simps)
qed

lemma sum_sq_nonneg: "0 \<le> (\<Sum>(x, v) \<leftarrow> zs. (dot d x)\<^sup>2)"
  by (induction zs) (auto simp: case_prod_beta)

lemma normal_fst:
  "(\<Sum>(x, v) \<leftarrow> zs. fst x * (dot (s, i) x - v)) =
     s * (\<Sum>(a, b) \<leftarrow> map fst zs. a * a) + i * (\<Sum>(a, b) \<leftarrow> map fst zs. a * b)
     - (\<Sum>((a, b), v) \<leftarrow> zs. a * v)"
  by (induction zs) (auto simp: dot_def algebra_simps)

lemma normal_snd:
  "(\<Sum>(x, v) \<leftarrow> zs. snd x * (dot (s, i) x - v)) =
     s * (\<Sum>(a, b) \<leftarrow> map fst zs. a * b) + i * (\<Sum>(a, b) \<leftarrow> map fst zs. b * b)
     - (\<Sum>((a, b), v) \<leftarrow> zs. b * v)"
  by (induction zs) (auto simp: dot_def algebra_simps)

lemma design_eq: "design H = map (\<lambda>t. (real t, 1)) [0..<nat H]"
  unfolding design_def np_arange_def
  by (rule nth_equalityI) auto

lemma length_design [simp]: "length (design H) = nat H"
  by (simp add: design_eq)

lemma lstsq_full_rank:
  assumes len: "length A = length y"
    and det: "(\<Sum>(a, b) \<leftarrow> A. a * a) * (\<Sum>(a, b) \<leftarrow> A. b * b)
              - (\<Sum>(a, b) \<leftarrow> A. a * b) * (\<Sum>(a, b) \<leftarrow> A. a * b) \<noteq> 0"
  shows "\<exists>s i. lstsq A y = Inr (s, i) \<and>
           (\<forall>s' i'. sq_error A y (s', i') =
              sq_error A y (s, i) + (\<Sum>(x, v) \<leftarrow> zip A y. (dot (s' - s, i' - i) x)\<^sup>2))"
proof -
  define zs where "zs = zip A y"
  have A: "A = map fst zs" using len by (simp add: zs_def)
  define saa where "saa = (\<Sum>(a, b) \<leftarrow> A. a * a)"
  define sab where "sab = (\<Sum>(a, b) \<leftarrow> A. a * b)"
  define sbb where "sbb = (\<Sum>(a, b) \<leftarrow> A. b * b)"
  define say where "say = (\<Sum>((a, b), v) \<leftarrow> zs. a * v)"
  define sby where "sby = (\<Sum>((a, b), v) \<leftarrow> zs. b * v)"
  define dt where "dt = saa * sbb - sab * sab"
  define s where "s = (sbb * say - sab * sby) / dt"
  define i where "i = (saa * sby - sab * say) / dt"
  have dt: "dt \<noteq> 0" using det by (simp add: dt_def saa_def sab_def sbb_def)
  have run: "lstsq A y = Inr (s, i)"
    using len dt
    by (simp add: lstsq_def Let_def s_def i_def dt_def saa_def sab_def sbb_def say_def sby_def zs_def)
  have n1: "(\<Sum>(x, v) \<leftarrow> zs. fst x * (dot (s, i) x - v)) = 0"
  proof -
    have "(\<Sum>(x, v) \<leftarrow> zs. fst x * (dot (s, i) x - v)) = s * saa + i * sab - say"
      by (simp add: normal_fst saa_def sab_def say_def A [symmetric])
    also have "\<dots> = ((sbb * say - sab * sby) * saa + (saa * sby - sab * say) * sab) / dt - say"
      by (simp add: s_def i_def add_divide_distrib)
    also have "(sbb * say - sab * sby) * saa + (saa * sby - sab * say) * sab = dt * say"
      by (simp add: dt_def algebra_simps)
    finally show ?thesis using dt by simp
  qed
  have n2: "(\<Sum>(x, v) \<leftarrow> zs. snd x * (dot (s, i) x - v)) = 0"
  proof -
    have "(\<Sum>(x, v) \<leftarrow> zs. snd x * (dot (s, i) x - v)) = s * sab + i * sbb - sby"
      by (simp add: normal_snd sbb_def sab_def sby_def A [symmetric])
    also have "\<dots> = ((sbb * say - sab * sby) * sab + (saa * sby - sab * say) * sbb) / dt - sby"
      by (simp add: s_def i_def add_divide_distrib)
    also have "(sbb * say - sab * sby) * sab + (saa * sby - sab * say) * sbb = dt * sby"
      by (simp add: dt_def algebra_simps)
    finally show ?thesis using dt by simp
  qed
  have "sq_error A y (s', i') =
        sq_error A y (s, i) + (\<Sum>(x, v) \<leftarrow> zip A y. (dot (s' - s, i' - i) x)\<^sup>2)" for s' i'
    unfolding sq_error_def zs_def [symmetric]
    by (subst sq_error_expand [where s = s and i = i]) (simp add: n1 n2)
  with run show ?thesis by blast
qed

lemma design_sum_ab: "(\<Sum>(a, b) \<leftarrow> map (\<lambda>t. (real t, 1)) [0..<n]. a * b) = real n * (real n - 1) / 2"
  by (induction n) (auto simp: algebra_simps)

lemma design_sum_aa:
  "(\<Sum>(a, b) \<leftarrow> map (\<lambda>t. (real t, 1)) [0..<n]. a * a) = (real n - 1) * real n * (2 * real n - 1) / 6"
  by (induction n) (auto simp: algebra_simps)

lemma design_sum_bb: "(\<Sum>(a, b) \<leftarrow> map (\<lambda>t. (real t, 1::real)) [0..<n]. b * b) = real n"
  by (induction n) auto

lemma design_det:
  "(\<Sum>(a, b) \<leftarrow> design H. a * a) * (\<Sum>(a, b) \<leftarrow> design H. b * b)
     - (\<Sum>(a, b) \<leftarrow> design H. a * b) * (\<Sum>(a, b) \<leftarrow> design H. a * b)
   = (real (nat H))\<^sup>2 * (real (nat H) - 1) * (real (nat H) + 1) / 12"
  unfolding design_eq design_sum_aa design_sum_ab design_sum_bb
  by (simp add: power2_eq_square field_simps)

lemma design_det_nonzero:
  assumes "2 \<le> H"
  shows "(\<Sum>(a, b) \<leftarrow> design H. a * a) * (\<Sum>(a, b) \<leftarrow> design H. b * b)
     - (\<Sum>(a, b) \<leftarrow> design H. a * b) * (\<Sum>(a, b) \<leftarrow> design H. a * b) \<noteq> 0"
proof -
  have "2 \<le> real (nat H)" using assms by simp
  then have "0 < (real (nat H))\<^sup>2 * (real (nat H) - 1) * (real (nat H) + 1) / 12"
    by simp
  then have "(real (nat H))\<^sup>2 * (real (nat H) - 1) * (real (nat H) + 1) / 12 \<noteq> 0"
    by (rule less_imp_neq [THEN not_sym])
  then show ?thesis unfolding design_det .
qed

subsection \<open>The design matrix of a window\<close>

lemma zip_design:
  assumes "length y = nat H"
  shows "zip (design H) y = map (\<lambda>t. ((real t, 1), y ! t)) [0..<nat H]"
  using assms unfolding design_eq by (intro nth_equalityI) auto

lemma sum_list_upt: "sum_list (map f [0..<n]) = (\<Sum>t<n. f t)"
  by (simp add: interv_sum_list_conv_sum_set_nat atLeast0LessThan)

lemma sq_error_design:
  assumes "length y = nat H"
  shows "sq_error (design H) y beta = line_sq_error y beta"
  unfolding sq_error_def line_sq_error_def zip_design [OF assms]
  using assms by (simp add: comp_def dot_def sum_list_upt)

lemma design_gap:
  assumes "length y = nat H"
  shows "(\<Sum>(x, v) \<leftarrow> zip (design H) y. (dot d x)\<^sup>2) = (\<Sum>t<nat H. (fst d * real t + snd d)\<^sup>2)"
  unfolding zip_design [OF assms]
  by (simp add: comp_def dot_def sum_list_upt)

lemma design_gap_zero:
  assumes "2 \<le> H" and "(\<Sum>t<nat H. (fst d * real t + snd d)\<^sup>2) = 0"
  shows "d = (0, 0)"
proof -
  have all: "\<forall>t\<in>{..<nat H}. (fst d * real t + snd d)\<^sup>2 = 0"
    using assms(2) by (subst (asm) sum_nonneg_eq_0_iff) auto
  have "0 \<in> {..<nat H}" "1 \<in> {..<nat H}" using assms(1) by auto
  with all have "(fst d * real 0 + snd d)\<^sup>2 = 0" "(fst d * real 1 + snd d)\<^sup>2 = 0"
    by blast+
  then have "snd d = 0" "fst d = 0" by auto
  then show ?thesis by (simp add: prod_eq_iff)
qed

lemma lstsq_design:
  assumes len: "length y = nat H"
  shows "\<exists>beta. lstsq (design H) y = Inr beta \<and> least_squares_line y beta \<and>
           (2 \<le> H \<longrightarrow> (\<forall>beta'. least_squares_line y beta' \<longrightarrow> beta' = beta))"
proof -
  consider "H \<le> 0" | "H = 1" | "2 \<le> H" by linarith
  then show ?thesis
  proof cases
    case 1
    then have "y = []" "design H = []" using len by (simp_all add: design_eq)
    then show ?thesis using 1
      by (simp add: lstsq_def least_squares_line_def line_sq_error_def)
  next
    case 2
    then obtain v where y: "y = [v]" using len by (cases y) auto
    have d: "design H = [(0, 1)]" using 2 by (simp add: design_eq)
    have "lstsq (design H) y = Inr (0, v)"
      unfolding d y by (simp add: lstsq_def)
    moreover have "least_squares_line y (0, v)"
      unfolding y by (simp add: least_squares_line_def line_sq_error_def)
    ultimately show ?thesis using 2 by simp
  next
    case 3
    have len': "length (design H) = length y" using len by simp
    from lstsq_full_rank [OF len' design_det_nonzero [OF 3]]
    obtain s i where run: "lstsq (design H) y = Inr (s, i)"
      and gap: "\<And>s' i'. sq_error (design H) y (s', i') =
              sq_error (design H) y (s, i)
              + (\<Sum>(x, v) \<leftarrow> zip (design H) y. (dot (s' - s, i' - i) x)\<^sup>2)"
      by blast
    have gap': "line_sq_error y (s', i') =
        line_sq_error y (s, i) + (\<Sum>t<nat H. ((s' - s) * real t + (i' - i))\<^sup>2)" for s' i'
      using gap [of s' i'] by (simp add: sq_error_design [OF len] design_gap [OF len])
    have least: "least_squares_line y (s, i)"
      unfolding least_squares_line_def
    proof
      fix beta' :: "real \<times> real"
      obtain s' i' where b: "beta' = (s', i')" by (cases beta')
      have "0 \<le> (\<Sum>t<nat H. ((s' - s) * real t + (i' - i))\<^sup>2)"
        by (rule sum_nonneg) simp
      then show "line_sq_error y (s, i) \<le> line_sq_error y beta'"
        unfolding b using gap' [of s' i'] by linarith
    qed
    have uniq: "beta' = (s, i)" if "least_squares_line y beta'" for beta'
    proof -
      obtain s' i' where b: "beta' = (s', i')" by (cases beta')
      have "line_sq_error y (s', i') \<le> line_sq_error y (s, i)"
        using that unfolding b least_squares_line_def by blast
      moreover have "0 \<le> (\<Sum>t<nat H. ((s' - s) * real t + (i' - i))\<^sup>2)"
        by (rule sum_nonneg) simp
      ultimately have "(\<Sum>t<nat H. ((s' - s) * real t + (i' - i))\<^sup>2) = 0"
        using gap' [of s' i'] by linarith
      then have "(s' - s, i' - i) = (0, 0)"
        using design_gap_zero [OF 3, of "(s' - s, i' - i)"] by simp
      then show ?thesis unfolding b by simp
    qed
    from run least uniq show ?thesis by blast
  qed
qed

subsection \<open>The history buffer\<close>

lemma length_shift_rows [simp]: "length (shift_rows a) = length a"
  by (cases a) (auto simp: shift_rows_def)

lemma shift_rows_nonempty:
  assumes "a \<noteq> []"
  shows "shift_rows a = tl a @ [last a]"
proof -
  have "drop (length a - 1) a = [last a]"
    using assms by (cases a rule: rev_cases) auto
  moreover have "drop 1 a = tl a"
    by (simp add: drop_Suc)
  ultimately show ?thesis by (simp add: shift_rows_def)
qed

lemma shift_rows_Nil [simp]: "shift_rows [] = []"
  by (simp add: shift_rows_def)

lemma set_shift_rows: "set (shift_rows a) \<subseteq> set a"
  unfolding shift_rows_def by (auto dest: in_set_dropD)

lemma shift_then_store:
  assumes "a \<noteq> []"
  shows "(shift_rows a)[length a - Suc 0 := row] = tl a @ [row]"
proof -
  have "length (tl a) = length a - 1" by simp
  then show ?thesis
    using assms by (simp add: shift_rows_nonempty list_update_append)
qed

lemma last_shift_rows: "a \<noteq> [] \<Longrightarrow> last (shift_rows a) = last a"
  by (simp add: shift_rows_nonempty)

lemma init_Inr:
  "init L H c = Inr m \<longleftrightarrow>
     0 < L \<and> 0 \<le> H \<and> \<not> array_too_big [H, L] \<and>
     m = \<lparr>num_lanes = L, history_length = H, cycle_length = c,
          vehicle_counts = replicate (nat H) (replicate (nat L) 0),
          signal_timings = replicate (nat L) (c / real_of_int L)\<rparr>"
  by (auto simp: init_def np_zeros2_def py_truediv_def np_full_def)

lemma init_shaped: "init L H c = Inr m \<Longrightarrow> shaped m"
  by (auto simp: init_Inr shaped_def)

lemma update_ok:
  assumes "shaped m" and "0 < history_length m" and "length v = nat (num_lanes m)"
  shows "update_vehicle_counts m v = (Inr (), m\<lparr>vehicle_counts := tl (vehicle_counts m) @ [v]\<rparr>)"
proof -
  have ne: "vehicle_counts m \<noteq> []" using assms by (auto simp: shaped_def)
  then have ne': "shift_rows (vehicle_counts m) \<noteq> []"
    by (simp add: shift_rows_nonempty)
  have "last (vehicle_counts m) \<in> set (vehicle_counts m)" using ne by simp
  then have w: "length (last (shift_rows (vehicle_counts m))) = nat (num_lanes m)"
    using assms(1) ne by (simp add: shaped_def last_shift_rows)
  show ?thesis
    unfolding update_vehicle_counts_def Let_def
    using ne' w assms(3) by (simp add: broadcast_row_def shift_then_store [OF ne])
qed

lemma broadcast_row_length: "broadcast_row w v = Inr row \<Longrightarrow> length row = w"
  by (auto simp: broadcast_row_def split: if_splits)

lemma update_cases:
  obtains (fail) e where
      "update_vehicle_counts m v = (Inl e, m\<lparr>vehicle_counts := shift_rows (vehicle_counts m)\<rparr>)"
  | (stored) row where
      "vehicle_counts m \<noteq> []"
      "broadcast_row (length (last (vehicle_counts m))) v = Inr row"
      "update_vehicle_counts m v = (Inr (), m\<lparr>vehicle_counts := tl (vehicle_counts m) @ [row]\<rparr>)"
proof (cases "vehicle_counts m = []")
  case True
  then show ?thesis using fail [of IndexError]
    by (simp add: update_vehicle_counts_def)
next
  case False
  then have ne': "shift_rows (vehicle_counts m) \<noteq> []"
    by (simp add: shift_rows_nonempty)
  show ?thesis
  proof (cases "broadcast_row (length (last (vehicle_counts m))) v")
    case (Inl e)
    then show ?thesis using fail [of e] ne' False
      by (simp add: update_vehicle_counts_def last_shift_rows)
  next
    case (Inr row)
    then show ?thesis using stored [of row] ne' False
      by (simp add: update_vehicle_counts_def last_shift_rows shift_then_store)
  qed
qed

lemma update_buffer_shape:
  assumes "shaped m"
  shows "shaped (snd (update_vehicle_counts m v))"
proof (cases rule: update_cases [where m = m and v = v])
  case (fail e)
  then show ?thesis
    using assms set_shift_rows [of "vehicle_counts m"] by (auto simp: shaped_def)
next
  case (stored row)
  have "last (vehicle_counts m) \<in> set (vehicle_counts m)" using stored(1) by simp
  then have "length row = nat (num_lanes m)"
    using assms broadcast_row_length [OF stored(2)] by (simp add: shaped_def)
  moreover have "set (tl (vehicle_counts m)) \<subseteq> set (vehicle_counts m)"
    by (cases "vehicle_counts m") auto
  moreover have "length (tl (vehicle_counts m) @ [row]) = length (vehicle_counts m)"
    using stored(1) by simp
  ultimately show ?thesis
    using assms stored(3) by (auto simp: shaped_def)
qed

subsection \<open>Prediction\<close>

lemma column_shaped:
  assumes "shaped m" and "lane < nat (num_lanes m)"
  shows "column (vehicle_counts m) lane = Inr (lane_series m lane)"
  using assms by (simp add: column_def shaped_def lane_series_def)

lemma length_lane_series [simp]: "length (lane_series m lane) = length (vehicle_counts m)"
  by (simp add: lane_series_def)

lemma predict_loop_fold:
  assumes "\<forall>lane \<in> set lanes. column vc lane = Inr (col lane) \<and> lstsq X (col lane) = Inr (fit lane)"
  shows "predict_loop X H vc lanes predicted =
           Inr (fold (\<lambda>lane p. p[lane := max (dot (fit lane) (real_of_int H, 1)) 0]) lanes predicted)"
  using assms by (induction lanes arbitrary: predicted) simp_all

lemma fold_store_upt:
  assumes "k \<le> length p"
  shows "fold (\<lambda>i p. p[i := g i]) [0..<k] p = map g [0..<k] @ drop k p"
  using assms
proof (induction k)
  case 0
  show ?case by simp
next
  case (Suc k)
  then have "k < length p" by simp
  then have "drop k p = p ! k # drop (Suc k) p"
    by (simp add: Cons_nth_drop_Suc)
  then show ?case using Suc by (simp add: list_update_append)
qed

lemma predict_congestion_state [simp]: "snd (predict_congestion m) = m"
  by (simp add: predict_congestion_def Let_def split: sum.splits)

lemma predict_shaped:
  assumes sh: "shaped m"
  shows "\<exists>betas. length betas = nat (num_lanes m) \<and>
      predict_congestion m =
        (Inr (map (\<lambda>beta. max (fst beta * real_of_int (history_length m) + snd beta) 0) betas), m) \<and>
      (\<forall>lane < nat (num_lanes m).
          lstsq (design (history_length m)) (lane_series m lane) = Inr (betas ! lane) \<and>
          least_squares_line (lane_series m lane) (betas ! lane) \<and>
          (2 \<le> history_length m \<longrightarrow>
             (\<forall>beta'. least_squares_line (lane_series m lane) beta' \<longrightarrow> beta' = betas ! lane)))"
proof -
  let ?L = "nat (num_lanes m)" and ?H = "history_length m"
  have len: "length (lane_series m lane) = nat ?H" for lane
    using sh by (simp add: shaped_def)
  have "\<forall>lane. \<exists>beta. lstsq (design ?H) (lane_series m lane) = Inr beta \<and>
          least_squares_line (lane_series m lane) beta \<and>
          (2 \<le> ?H \<longrightarrow> (\<forall>beta'. least_squares_line (lane_series m lane) beta' \<longrightarrow> beta' = beta))"
    using lstsq_design [OF len] by blast
  then obtain fit where fit: "\<And>lane. lstsq (design ?H) (lane_series m lane) = Inr (fit lane) \<and>
          least_squares_line (lane_series m lane) (fit lane) \<and>
          (2 \<le> ?H \<longrightarrow> (\<forall>beta'. least_squares_line (lane_series m lane) beta' \<longrightarrow> beta' = fit lane))"
    by metis
  have loop: "predict_loop (design ?H) ?H (vehicle_counts m) [0..<?L] (replicate ?L 0) =
      Inr (map (\<lambda>lane. max (dot (fit lane) (real_of_int ?H, 1)) 0) [0..<?L])"
    by (subst predict_loop_fold [where col = "lane_series m" and fit = fit])
       (use sh fit in \<open>auto simp: column_shaped fold_store_upt\<close>)
  have run: "predict_congestion m =
      (Inr (map (\<lambda>lane. max (dot (fit lane) (real_of_int ?H, 1)) 0) [0..<?L]), m)"
    using sh loop
    by (simp add: predict_congestion_def np_zeros_def np_ones_def np_full_def shaped_def
        design_def Let_def)
  define betas where "betas = map fit [0..<?L]"
  have "map (\<lambda>lane. max (dot (fit lane) (real_of_int ?H, 1)) 0) [0..<?L] =
        map (\<lambda>beta. max (fst beta * real_of_int ?H + snd beta) 0) betas"
    by (simp add: betas_def dot_def comp_def)
  moreover have "length betas = ?L" "\<And>lane. lane < ?L \<Longrightarrow> betas ! lane = fit lane"
    by (simp_all add: betas_def)
  ultimately show ?thesis using run fit by (intro exI [of _ betas]) simp
qed

subsection \<open>The float sum\<close>

lemma float_overflow_large: "2 ^ 1023 < float_overflow"
proof -
  have "(2::real) ^ 1024 = 2 * 2 ^ 1023" by simp
  moreover have "(2::real) ^ 970 < 2 ^ 1023" by (rule power_strict_increasing) simp_all
  ultimately show ?thesis unfolding float_overflow_def by linarith
qed

lemma float_overflow_pos: "0 < float_overflow"
proof -
  have "(0::real) < 2 ^ 1023" by simp
  then show ?thesis using float_overflow_large by linarith
qed

lemma float_overflow_small: "float_overflow < 2 ^ 1025"
proof -
  have "(2::real) ^ 1024 < 2 ^ 1025" by (rule power_strict_increasing) simp_all
  moreover have "(0::real) < 2 ^ 970" by simp
  ultimately show ?thesis unfolding float_overflow_def by linarith
qed

lemma overflow_zero: "overflow 0 = Finite 0"
  using float_overflow_pos by (simp add: overflow_def)

lemma float_add_overflow:
  assumes "0 \<le> a" and "0 \<le> x"
  shows "float_add (overflow a) x = overflow (a + x)"
  using assms float_overflow_pos by (auto simp: overflow_def)

lemma foldl_float_add_nonneg:
  assumes "0 \<le> a" and "\<forall>x \<in> set xs. 0 \<le> x"
  shows "foldl float_add (overflow a) xs = overflow (a + sum_list xs)"
  using assms
proof (induction xs arbitrary: a)
  case Nil
  show ?case by simp
next
  case (Cons x xs)
  have "foldl float_add (overflow a) (x # xs) = foldl float_add (overflow (a + x)) xs"
    using Cons.prems by (simp add: float_add_overflow)
  also have "\<dots> = overflow (a + x + sum_list xs)"
    using Cons.prems by (intro Cons.IH) auto
  finally show ?case by (simp add: add.assoc)
qed

lemma np_sum_nonneg:
  assumes "\<forall>x \<in> set xs. 0 \<le> x"
  shows "np_sum xs = overflow (sum_list xs)"
  using foldl_float_add_nonneg [of 0 xs] assms by (simp add: np_sum_def overflow_zero)

lemma np_sum_in_range:
  assumes "\<forall>x \<in> set xs. 0 \<le> x" and "sum_list xs \<le> 2 ^ 1023"
  shows "np_sum xs = Finite (sum_list xs)"
proof -
  have "0 \<le> sum_list xs" using assms(1) by (simp add: sum_list_nonneg)
  then show ?thesis
    using assms float_overflow_large float_overflow_pos
    by (simp add: np_sum_nonneg overflow_def)
qed

lemma np_sum_overflows:
  assumes "\<forall>x \<in> set xs. 0 \<le> x" and "2 ^ 1025 \<le> sum_list xs"
  shows "np_sum xs = PlusInf"
  using assms float_overflow_small by (simp add: np_sum_nonneg overflow_def)

lemma np_sum_zero_iff:
  assumes "\<forall>x \<in> set xs. 0 \<le> x"
  shows "np_sum xs = Finite 0 \<longleftrightarrow> sum_list xs = 0"
  using assms float_overflow_pos by (auto simp: np_sum_nonneg overflow_def)

lemma optimize_run:
  assumes "0 < num_lanes m"
  shows "optimize_signal_timings m predicted =
     (Inr (), m\<lparr>signal_timings :=
        (if np_sum predicted = Finite 0
         then replicate (nat (num_lanes m)) (cycle_length m / real_of_int (num_lanes m))
         else map (\<lambda>p. div_total p (np_sum predicted) * cycle_length m) predicted)\<rparr>)"
  using assms by (simp add: optimize_signal_timings_def py_truediv_def np_full_def Let_def)

lemma optimize_frame: "\<exists>st. snd (optimize_signal_timings m predicted) = m\<lparr>signal_timings := st\<rparr>"
proof (cases "fst (optimize_signal_timings m predicted)")
  case (Inl e)
  then have "snd (optimize_signal_timings m predicted) = m"
    by (auto simp: optimize_signal_timings_def Let_def split: if_splits sum.splits)
  then have "snd (optimize_signal_timings m predicted) = m\<lparr>signal_timings := signal_timings m\<rparr>"
    by simp
  then show ?thesis by blast
next
  case (Inr u)
  then show ?thesis
    by (auto simp: optimize_signal_timings_def Let_def split: if_splits sum.splits)
qed

subsection \<open>A bound on the forecast\<close>

lemma design_say:
  assumes "length y = nat H"
  shows "(\<Sum>((a, b), v) \<leftarrow> zip (design H) y. a * v) = (\<Sum>t<nat H. real t * y ! t)"
  unfolding zip_design [OF assms] by (simp add: comp_def sum_list_upt)

lemma design_sby:
  assumes "length y = nat H"
  shows "(\<Sum>((a, b), v) \<leftarrow> zip (design H) y. b * v) = (\<Sum>t<nat H. y ! t)"
  unfolding zip_design [OF assms] by (simp add: comp_def sum_list_upt)

lemma sum_indices: "(\<Sum>t<n. real t) = real n * (real n - 1) / 2"
  by (induction n) (auto simp: algebra_simps)

lemma abs_sum_bounded:
  assumes "\<forall>x \<in> set y. \<bar>x\<bar> \<le> B"
  shows "\<bar>\<Sum>t<length y. y ! t\<bar> \<le> B * real (length y)"
proof -
  have "\<bar>\<Sum>t<length y. y ! t\<bar> \<le> (\<Sum>t<length y. \<bar>y ! t\<bar>)" by (rule sum_abs)
  also have "\<dots> \<le> (\<Sum>t<length y. B)"
    using assms by (intro sum_mono) simp
  finally show ?thesis by (simp add: mult.commute)
qed

lemma abs_weighted_sum_bounded:
  assumes "\<forall>x \<in> set y. \<bar>x\<bar> \<le> B"
  shows "\<bar>\<Sum>t<length y. real t * y ! t\<bar> \<le> B * (real (length y) * (real (length y) - 1) / 2)"
proof -
  have "\<bar>\<Sum>t<length y. real t * y ! t\<bar> \<le> (\<Sum>t<length y. \<bar>real t * y ! t\<bar>)" by (rule sum_abs)
  also have "\<dots> \<le> (\<Sum>t<length y. real t * B)"
    using assms by (intro sum_mono) (simp add: abs_mult mult_left_mono)
  also have "\<dots> = B * (\<Sum>t<length y. real t)"
    by (simp add: sum_distrib_left mult.commute)
  finally show ?thesis by (simp add: sum_indices)
qed

lemma lstsq_design_explicit:
  assumes len: "length y = nat H" and H: "2 \<le> H"
  shows "lstsq (design H) y =
     Inr ((real (nat H) * (\<Sum>t<nat H. real t * y ! t)
             - real (nat H) * (real (nat H) - 1) / 2 * (\<Sum>t<nat H. y ! t))
          / ((real (nat H))\<^sup>2 * (real (nat H) - 1) * (real (nat H) + 1) / 12),
          ((real (nat H) - 1) * real (nat H) * (2 * real (nat H) - 1) / 6 * (\<Sum>t<nat H. y ! t)
             - real (nat H) * (real (nat H) - 1) / 2 * (\<Sum>t<nat H. real t * y ! t))
          / ((real (nat H))\<^sup>2 * (real (nat H) - 1) * (real (nat H) + 1) / 12))"
proof -
  have saa: "(\<Sum>(a, b) \<leftarrow> design H. a * a) = (real (nat H) - 1) * real (nat H) * (2 * real (nat H) - 1) / 6"
    unfolding design_eq by (rule design_sum_aa)
  have sab: "(\<Sum>(a, b) \<leftarrow> design H. a * b) = real (nat H) * (real (nat H) - 1) / 2"
    unfolding design_eq by (rule design_sum_ab)
  have sbb: "(\<Sum>(a, b) \<leftarrow> design H. b * b) = real (nat H)"
    unfolding design_eq by (rule design_sum_bb)
  have det: "(\<Sum>(a, b) \<leftarrow> design H. a * a) * (\<Sum>(a, b) \<leftarrow> design H. b * b)
     - (\<Sum>(a, b) \<leftarrow> design H. a * b) * (\<Sum>(a, b) \<leftarrow> design H. a * b)
     = (real (nat H))\<^sup>2 * (real (nat H) - 1) * (real (nat H) + 1) / 12"
    by (rule design_det)
  have nz: "(\<Sum>(a, b) \<leftarrow> design H. a * a) * (\<Sum>(a, b) \<leftarrow> design H. b * b)
     - (\<Sum>(a, b) \<leftarrow> design H. a * b) * (\<Sum>(a, b) \<leftarrow> design H. a * b) \<noteq> 0"
    using H by (rule design_det_nonzero)
  have "lstsq (design H) y =
      Inr (((\<Sum>(a, b) \<leftarrow> design H. b * b) * (\<Sum>((a, b), v) \<leftarrow> zip (design H) y. a * v)
            - (\<Sum>(a, b) \<leftarrow> design H. a * b) * (\<Sum>((a, b), v) \<leftarrow> zip (design H) y. b * v))
           / ((\<Sum>(a, b) \<leftarrow> design H. a * a) * (\<Sum>(a, b) \<leftarrow> design H. b * b)
              - (\<Sum>(a, b) \<leftarrow> design H. a * b) * (\<Sum>(a, b) \<leftarrow> design H. a * b)),
           ((\<Sum>(a, b) \<leftarrow> design H. a * a) * (\<Sum>((a, b), v) \<leftarrow> zip (design H) y. b * v)
            - (\<Sum>(a, b) \<leftarrow> design H. a * b) * (\<Sum>((a, b), v) \<leftarrow> zip (design H) y. a * v))
           / ((\<Sum>(a, b) \<leftarrow> design H. a * a) * (\<Sum>(a, b) \<leftarrow> design H. b * b)
              - (\<Sum>(a, b) \<leftarrow> design H. a * b) * (\<Sum>(a, b) \<leftarrow> design H. a * b)))"
    using len nz by (simp add: lstsq_def Let_def)
  then show ?thesis
    unfolding det unfolding saa sab sbb design_say [OF len] design_sby [OF len] .
qed

lemma lstsq_design_forecast_bound:
  assumes len: "length y = nat H" and bnd: "\<forall>x \<in> set y. \<bar>x\<bar> \<le> B" and B: "0 \<le> B"
    and run: "lstsq (design H) y = Inr beta"
  shows "\<bar>fst beta * real_of_int H + snd beta\<bar> \<le> 5 * B"
proof -
  consider "H \<le> 0" | "H = 1" | "2 \<le> H" by linarith
  then show ?thesis
  proof cases
    case 1
    then have "y = []" "design H = []" using len by (simp_all add: design_eq)
    then have "beta = (0, 0)" using run by (simp add: lstsq_def)
    then show ?thesis using B by simp
  next
    case 2
    then obtain v where y: "y = [v]" using len by (cases y) auto
    have "design H = [(0, 1)]" using 2 by (simp add: design_eq)
    then have "beta = (0, v)" using run y by (simp add: lstsq_def)
    moreover have "\<bar>v\<bar> \<le> B" using bnd y by simp
    ultimately show ?thesis using B by simp
  next
    case 3
    define n where "n = real (nat H)"
    define Sy where "Sy = (\<Sum>t<nat H. y ! t)"
    define Sty where "Sty = (\<Sum>t<nat H. real t * y ! t)"
    define dt where "dt = n\<^sup>2 * (n - 1) * (n + 1) / 12"
    have n2: "2 \<le> n" using 3 by (simp add: n_def)
    have nH: "real_of_int H = n" using 3 by (simp add: n_def)
    have dt_pos: "0 < dt" using n2 by (simp add: dt_def)
    have beta: "beta = ((n * Sty - n * (n - 1) / 2 * Sy) / dt,
                        ((n - 1) * n * (2 * n - 1) / 6 * Sy - n * (n - 1) / 2 * Sty) / dt)"
      using lstsq_design_explicit [OF len 3] run
      unfolding n_def [symmetric] Sy_def [symmetric] Sty_def [symmetric] dt_def [symmetric]
      by simp
    have a1: "\<bar>Sty\<bar> \<le> B * (n * (n - 1) / 2)"
      using abs_weighted_sum_bounded [OF bnd] unfolding len Sty_def n_def .
    have a2: "\<bar>Sy\<bar> \<le> B * n"
      using abs_sum_bounded [OF bnd] unfolding len Sy_def n_def .
    define p where "p = n * (n + 1) / 2"
    define q where "q = n * (n - 1) * (n + 1) / 6"
    have p0: "0 \<le> p" and q0: "0 \<le> q" using n2 by (simp_all add: p_def q_def)
    have forecast: "fst beta * real_of_int H + snd beta = (Sty * p - Sy * q) / dt"
      unfolding beta nH p_def q_def using dt_pos
      by (simp add: field_simps power2_eq_square)
    have "\<bar>Sty * p - Sy * q\<bar> \<le> \<bar>Sty * p\<bar> + \<bar>Sy * q\<bar>" by (rule abs_triangle_ineq4)
    also have "\<dots> = \<bar>Sty\<bar> * p + \<bar>Sy\<bar> * q" using p0 q0 by (simp add: abs_mult)
    also have "\<dots> \<le> B * (n * (n - 1) / 2) * p + B * n * q"
      using a1 a2 p0 q0 by (intro add_mono mult_right_mono)
    also have "\<dots> = 5 * B * dt"
      unfolding p_def q_def dt_def by (simp add: field_simps power2_eq_square)
    finally have "\<bar>Sty * p - Sy * q\<bar> / dt \<le> 5 * B"
      using dt_pos by (simp add: pos_divide_le_eq)
    then show ?thesis unfolding forecast using dt_pos by simp
  qed
qed

subsection \<open>Allocation and whole steps\<close>

lemma sum_list_scaled: "sum_list (map (\<lambda>p. p / t * c) ps) = sum_list ps / t * (c::real)"
  by (induction ps) (simp_all add: algebra_simps add_divide_distrib)

lemma sum_list_equal_split:
  assumes "0 < L"
  shows "sum_list (replicate (nat L) (c / real_of_int L)) = (c::real)"
  using assms by (simp add: sum_list_replicate)

lemma sum_list_nonneg_pos:
  assumes "\<forall>p \<in> set ps. (0::real) \<le> p" and "sum_list ps \<noteq> 0"
  shows "0 < sum_list ps"
  using assms sum_list_nonneg [of ps] by fastforce

lemma sum_list_le_length_times:
  assumes "\<forall>x \<in> set xs. x \<le> (K::real)"
  shows "sum_list xs \<le> real (length xs) * K"
  using assms by (induction xs) (auto simp: algebra_simps)

lemma simulate_step_cases:
  assumes "shaped m"
  obtains (fail) e where
      "update_vehicle_counts m v = (Inl e, m\<lparr>vehicle_counts := shift_rows (vehicle_counts m)\<rparr>)"
      "simulate_step m v = (Inl e, m\<lparr>vehicle_counts := shift_rows (vehicle_counts m)\<rparr>)"
  | (ran) m1 predicted m3 where
      "update_vehicle_counts m v = (Inr (), m1)"
      "shaped m1"
      "predict_congestion m1 = (Inr predicted, m1)"
      "optimize_signal_timings m1 predicted = (Inr (), m3)"
      "simulate_step m v =
         (Inr \<lparr>latest_counts = v, predicted_counts = predicted,
               res_signal_timings = signal_timings m3\<rparr>, m3)"
proof (cases rule: update_cases [where m = m and v = v])
  case (fail e)
  then show ?thesis using that(1) [of e] by (simp add: simulate_step_def)
next
  case (stored row)
  define m1 where "m1 = m\<lparr>vehicle_counts := tl (vehicle_counts m) @ [row]\<rparr>"
  have u: "update_vehicle_counts m v = (Inr (), m1)" using stored(3) by (simp add: m1_def)
  have sh: "shaped m1" using update_buffer_shape [OF assms, of v] u by simp
  from predict_shaped [OF sh] obtain predicted where p: "predict_congestion m1 = (Inr predicted, m1)"
    by blast
  have "0 < num_lanes m1" using sh by (simp add: shaped_def)
  from optimize_run [OF this, of predicted]
  obtain m3 where o: "optimize_signal_timings m1 predicted = (Inr (), m3)" by blast
  show ?thesis using that(2) [OF u sh p o] u p o by (simp add: simulate_step_def)
qed

lemma update_all_window:
  assumes "shaped m" and "0 < history_length m" and "\<forall>v \<in> set vs. length v = nat (num_lanes m)"
  shows "update_all m vs = (Inr (), m\<lparr>vehicle_counts := drop (length vs) (vehicle_counts m @ vs)\<rparr>)"
  using assms
proof (induction vs arbitrary: m)
  case Nil
  show ?case by simp
next
  case (Cons v vs)
  let ?m1 = "m\<lparr>vehicle_counts := tl (vehicle_counts m) @ [v]\<rparr>"
  have u: "update_vehicle_counts m v = (Inr (), ?m1)"
    using Cons.prems by (intro update_ok) auto
  have sh: "shaped ?m1" using update_buffer_shape [OF Cons.prems(1), of v] u by simp
  have ne: "vehicle_counts m \<noteq> []" using Cons.prems(1,2) by (auto simp: shaped_def)
  have "update_all ?m1 vs = (Inr (), ?m1\<lparr>vehicle_counts := drop (length vs) (vehicle_counts ?m1 @ vs)\<rparr>)"
    using Cons.prems sh by (intro Cons.IH) auto
  moreover have "drop (length vs) ((tl (vehicle_counts m) @ [v]) @ vs) =
      drop (length (v # vs)) (vehicle_counts m @ v # vs)"
    using ne by (cases "vehicle_counts m") auto
  ultimately show ?case using u by simp
qed

lemma constant_series_fit:
  assumes "0 < H"
  shows "lstsq (design H) (replicate (nat H) v) = Inr (0, v)"
proof -
  let ?y = "replicate (nat H) v"
  have len: "length ?y = nat H" by simp
  from lstsq_design [OF len] obtain beta where
    run: "lstsq (design H) ?y = Inr beta" and
    uniq: "2 \<le> H \<longrightarrow> (\<forall>beta'. least_squares_line ?y beta' \<longrightarrow> beta' = beta)"
    by blast
  show ?thesis
  proof (cases "2 \<le> H")
    case True
    have "line_sq_error ?y (0, v) = 0"
      by (simp add: line_sq_error_def)
    moreover have "0 \<le> line_sq_error ?y b" for b
      unfolding line_sq_error_def by (rule sum_nonneg) simp
    ultimately have "least_squares_line ?y (0, v)"
      by (simp add: least_squares_line_def)
    then show ?thesis using uniq True run by auto
  next
    case False
    then have "H = 1" using assms by simp
    then show ?thesis by (simp add: design_eq lstsq_def)
  qed
qed

subsection \<open>The example states\<close>

lemma example_manager_shaped: "shaped example_manager"
  by (simp add: shaped_def example_manager_def)

lemma example_manager_reached:
  "(case init 2 2 120 of
      Inl e \<Rightarrow> False
    | Inr m0 \<Rightarrow> update_vehicle_counts m0 [1, 2] = (Inr (), example_manager))"
  unfolding example_manager_def by code_simp

lemma simulate_step_shaped:
  assumes "shaped m"
  shows "shaped (snd (simulate_step m v))"
  using assms
proof (cases rule: simulate_step_cases [where v = v])
  case (fail e)
  then show ?thesis using update_buffer_shape [OF assms, of v] by simp
next
  case (ran m1 predicted m3)
  have "0 < num_lanes m1" using ran(2) by (simp add: shaped_def)
  from optimize_run [OF this, of predicted] ran(4)
  have "vehicle_counts m3 = vehicle_counts m1" "num_lanes m3 = num_lanes m1"
    "history_length m3 = history_length m1"
    by auto
  then show ?thesis using ran(2,5) by (simp add: shaped_def)
qed

lemma four_lane_manager_reached: "init 4 1 100 = Inr four_lane_manager"
  unfolding four_lane_manager_def by code_simp

lemma steady_manager_shaped: "shaped steady_manager"
  by (simp add: shaped_def steady_manager_def)

subsection \<open>A vector of the wrong length\<close>

lemma update_wrong_length:
  assumes "shaped m" and "0 < history_length m"
    and "length v \<noteq> nat (num_lanes m)" and "length v \<noteq> 1"
  shows "update_vehicle_counts m v =
     (Inl ValueError, m\<lparr>vehicle_counts := tl (vehicle_counts m) @ [last (vehicle_counts m)]\<rparr>)"
proof -
  have ne: "vehicle_counts m \<noteq> []" using assms(1,2) by (auto simp: shaped_def)
  then have "last (vehicle_counts m) \<in> set (vehicle_counts m)" by simp
  then have w: "length (last (vehicle_counts m)) = nat (num_lanes m)"
    using assms(1) by (simp add: shaped_def)
  have sr: "shift_rows (vehicle_counts m) = tl (vehicle_counts m) @ [last (vehicle_counts m)]"
    using ne by (rule shift_rows_nonempty)
  show ?thesis
    unfolding update_vehicle_counts_def Let_def sr
    using w assms(3,4) by (simp add: broadcast_row_def)
qed

lemma update_broadcast:
  assumes "shaped m" and "0 < history_length m" and "length v = 1"
  shows "update_vehicle_counts m v =
     (Inr (), m\<lparr>vehicle_counts :=
        tl (vehicle_counts m) @ [if nat (num_lanes m) = 1 then v
                                 else replicate (nat (num_lanes m)) (hd v)]\<rparr>)"
proof -
  have ne: "vehicle_counts m \<noteq> []" using assms(1,2) by (auto simp: shaped_def)
  then have "last (vehicle_counts m) \<in> set (vehicle_counts m)" by simp
  then have w: "length (last (vehicle_counts m)) = nat (num_lanes m)"
    using assms(1) by (simp add: shaped_def)
  have sr: "shift_rows (vehicle_counts m) = tl (vehicle_counts m) @ [last (vehicle_counts m)]"
    using ne by (rule shift_rows_nonempty)
  have l: "length (tl (vehicle_counts m)) = length (vehicle_counts m) - 1" by simp
  show ?thesis
    unfolding update_vehicle_counts_def Let_def sr
    using w assms(3) l by (simp add: broadcast_row_def list_update_append)
qed

subsection \<open>The solver on a window of one step\<close>

text \<open>
  A window of one step does not determine the slope. \<open>lstsq\<close> returns the line of slope 0
  through the observation, which has the least norm among the lines that fit.
\<close>

lemma lstsq_one_observation:
  "lstsq (design 1) [v] = Inr (0, v) \<and>
   (\<forall>beta'. least_squares_line [v] beta' \<longrightarrow> 0\<^sup>2 + v\<^sup>2 \<le> (fst beta')\<^sup>2 + (snd beta')\<^sup>2)"
proof -
  have run: "lstsq (design 1) [v] = Inr (0, v)"
    by (simp add: design_eq lstsq_def)
  have "0\<^sup>2 + v\<^sup>2 \<le> (fst beta')\<^sup>2 + (snd beta')\<^sup>2" if "least_squares_line [v] beta'" for beta'
  proof -
    have "line_sq_error [v] beta' \<le> line_sq_error [v] (0, v)"
      using that by (simp add: least_squares_line_def)
    then have "(snd beta' - v)\<^sup>2 \<le> 0" by (simp add: line_sq_error_def)
    then have "snd beta' = v" by simp
    then show ?thesis by simp
  qed
  with run show ?thesis by blast
qed

subsection \<open>A whole step\<close>

lemma simulate_step_succeeds:
  assumes "shaped m" and "0 < history_length m" and "length v = nat (num_lanes m)"
  shows "\<exists>r m'. simulate_step m v = (Inr r, m')"
  using assms(1)
proof (cases rule: simulate_step_cases [where v = v])
  case (fail e)
  then show ?thesis using update_ok [OF assms] by simp
next
  case (ran m1 predicted m3)
  then show ?thesis by blast
qed

lemma simulate_step_run:
  assumes "update_vehicle_counts m v = (Inr (), m1)"
    and "predict_congestion m1 = (Inr ps, m1)"
    and "optimize_signal_timings m1 ps = (Inr (), m3)"
  shows "simulate_step m v =
     (Inr \<lparr>latest_counts = v, predicted_counts = ps, res_signal_timings = signal_timings m3\<rparr>, m3)"
  using assms by (simp add: simulate_step_def)

lemma optimize_in_range:
  assumes "0 < num_lanes m" and "\<forall>p \<in> set predicted. 0 \<le> p" and "sum_list predicted \<le> 2 ^ 1023"
  shows "optimize_signal_timings m predicted =
     (Inr (), m\<lparr>signal_timings :=
        (if sum_list predicted = 0
         then replicate (nat (num_lanes m)) (cycle_length m / real_of_int (num_lanes m))
         else map (\<lambda>p. p / sum_list predicted * cycle_length m) predicted)\<rparr>)"
  using optimize_run [OF assms(1), of predicted] np_sum_in_range [OF assms(2,3)]
  by simp

lemma steady_state_run:
  "(case init 3 5 120 of
      Inl e \<Rightarrow> False
    | Inr m0 \<Rightarrow>
        (case simulate_steps m0 (replicate 5 [10, 10, 10]) of
           (Inl e, m') \<Rightarrow> False
         | (Inr rs, m') \<Rightarrow>
             length rs = 5 \<and> predicted_counts (last rs) = [10, 10, 10] \<and>
             res_signal_timings (last rs) = [40, 40, 40] \<and> m' = steady_manager))"
proof -
  define st where "st = (\<lambda>buffer. \<lparr>num_lanes = 3, history_length = 5, cycle_length = 120,
     vehicle_counts = buffer, signal_timings = [40, 40, 40]\<rparr>)"
  let ?z = "[0, 0, 0 :: real]" and ?v = "[10, 10, 10 :: real]"
  have i: "init 3 5 120 = Inr (st [?z, ?z, ?z, ?z, ?z])"
    unfolding st_def by code_simp
  have opt: "optimize_signal_timings (st b) [x, x, x] = (Inr (), st b)"
    if "0 < x" "x \<le> 100" for b x
  proof -
    have "3 * x \<le> 2 ^ 1023" using that by simp
    then show ?thesis
      using that optimize_in_range [of "st b" "[x, x, x]"]
      by (simp add: st_def numeral_eq_Suc)
  qed
  have u1: "update_vehicle_counts (st [?z, ?z, ?z, ?z, ?z]) ?v = (Inr (), st [?z, ?z, ?z, ?z, ?v])"
    unfolding st_def by code_simp
  have p1: "predict_congestion (st [?z, ?z, ?z, ?z, ?v]) = (Inr [8, 8, 8], st [?z, ?z, ?z, ?z, ?v])"
    unfolding st_def by code_simp
  have u2: "update_vehicle_counts (st [?z, ?z, ?z, ?z, ?v]) ?v = (Inr (), st [?z, ?z, ?z, ?v, ?v])"
    unfolding st_def by code_simp
  have p2: "predict_congestion (st [?z, ?z, ?z, ?v, ?v]) = (Inr [13, 13, 13], st [?z, ?z, ?z, ?v, ?v])"
    unfolding st_def by code_simp
  have u3: "update_vehicle_counts (st [?z, ?z, ?z, ?v, ?v]) ?v = (Inr (), st [?z, ?z, ?v, ?v, ?v])"
    unfolding st_def by code_simp
  have p3: "predict_congestion (st [?z, ?z, ?v, ?v, ?v]) = (Inr [15, 15, 15], st [?z, ?z, ?v, ?v, ?v])"
    unfolding st_def by code_simp
  have u4: "update_vehicle_counts (st [?z, ?z, ?v, ?v, ?v]) ?v = (Inr (), st [?z, ?v, ?v, ?v, ?v])"
    unfolding st_def by code_simp
  have p4: "predict_congestion (st [?z, ?v, ?v, ?v, ?v]) = (Inr [14, 14, 14], st [?z, ?v, ?v, ?v, ?v])"
    unfolding st_def by code_simp
  have u5: "update_vehicle_counts (st [?z, ?v, ?v, ?v, ?v]) ?v = (Inr (), st [?v, ?v, ?v, ?v, ?v])"
    unfolding st_def by code_simp
  have p5: "predict_congestion (st [?v, ?v, ?v, ?v, ?v]) = (Inr [10, 10, 10], st [?v, ?v, ?v, ?v, ?v])"
    unfolding st_def by code_simp
  note s1 = simulate_step_run [OF u1 p1 opt]
    and s2 = simulate_step_run [OF u2 p2 opt]
    and s3 = simulate_step_run [OF u3 p3 opt]
    and s4 = simulate_step_run [OF u4 p4 opt]
    and s5 = simulate_step_run [OF u5 p5 opt]
  have five: "replicate 5 ?v = [?v, ?v, ?v, ?v, ?v]" by (simp add: numeral_eq_Suc)
  have last: "st [?v, ?v, ?v, ?v, ?v] = steady_manager"
    by (simp add: st_def steady_manager_def numeral_eq_Suc)
  have "simulate_steps (st [?z, ?z, ?z, ?z, ?z]) (replicate 5 ?v) =
      (Inr [\<lparr>latest_counts = ?v, predicted_counts = [8, 8, 8], res_signal_timings = [40, 40, 40]\<rparr>,
            \<lparr>latest_counts = ?v, predicted_counts = [13, 13, 13], res_signal_timings = [40, 40, 40]\<rparr>,
            \<lparr>latest_counts = ?v, predicted_counts = [15, 15, 15], res_signal_timings = [40, 40, 40]\<rparr>,
            \<lparr>latest_counts = ?v, predicted_counts = [14, 14, 14], res_signal_timings = [40, 40, 40]\<rparr>,
            \<lparr>latest_counts = ?v, predicted_counts = [10, 10, 10], res_signal_timings = [40, 40, 40]\<rparr>],
       steady_manager)"
  proof -
    have t: "signal_timings (st b) = [40, 40, 40]" for b by (simp add: st_def)
    have "signal_timings steady_manager = [40, 40, 40]" by (simp add: steady_manager_def)
    then show ?thesis unfolding five by (simp add: s1 s2 s3 s4 s5 last t)
  qed
  then show ?thesis using i by simp
qed

subsection \<open>Observations of bounded size\<close>

lemma broadcast_row_bounded:
  assumes "broadcast_row w v = Inr row" and "\<forall>x \<in> set v. \<bar>x\<bar> \<le> B"
  shows "\<forall>x \<in> set row. \<bar>x\<bar> \<le> B"
proof (cases "length v = w")
  case True
  then show ?thesis using assms by (simp add: broadcast_row_def)
next
  case False
  then have one: "length v = 1" and row: "row = replicate w (hd v)"
    using assms(1) by (auto simp: broadcast_row_def split: if_splits)
  from one have "hd v \<in> set v" by (cases v) auto
  then show ?thesis using assms(2) row by auto
qed

lemma update_bounded:
  assumes "update_vehicle_counts m v = (Inr (), m1)"
    and "\<forall>row \<in> set (vehicle_counts m). \<forall>x \<in> set row. \<bar>x\<bar> \<le> B"
    and "\<forall>x \<in> set v. \<bar>x\<bar> \<le> B"
  shows "\<forall>row \<in> set (vehicle_counts m1). \<forall>x \<in> set row. \<bar>x\<bar> \<le> B"
    and "cycle_length m1 = cycle_length m" and "num_lanes m1 = num_lanes m"
proof -
  have "(\<forall>row \<in> set (vehicle_counts m1). \<forall>x \<in> set row. \<bar>x\<bar> \<le> B) \<and>
      cycle_length m1 = cycle_length m \<and> num_lanes m1 = num_lanes m"
  proof (cases rule: update_cases [where m = m and v = v])
    case (fail e)
    then show ?thesis using assms(1) by simp
  next
    case (stored row)
    have m1: "m1 = m\<lparr>vehicle_counts := tl (vehicle_counts m) @ [row]\<rparr>"
      using stored(3) assms(1) by simp
    have "\<forall>x \<in> set row. \<bar>x\<bar> \<le> B"
      using stored(2) assms(3) by (rule broadcast_row_bounded)
    moreover have "set (tl (vehicle_counts m)) \<subseteq> set (vehicle_counts m)"
      by (cases "vehicle_counts m") auto
    ultimately show ?thesis using assms(2) unfolding m1 by auto
  qed
  then show "\<forall>row \<in> set (vehicle_counts m1). \<forall>x \<in> set row. \<bar>x\<bar> \<le> B"
    and "cycle_length m1 = cycle_length m" and "num_lanes m1 = num_lanes m"
    by blast+
qed

lemma lane_series_bounded:
  assumes "shaped m" and "lane < nat (num_lanes m)"
    and "\<forall>row \<in> set (vehicle_counts m). \<forall>x \<in> set row. \<bar>x\<bar> \<le> B"
  shows "\<forall>x \<in> set (lane_series m lane). \<bar>x\<bar> \<le> B"
  using assms by (auto simp: lane_series_def shaped_def)

lemma predict_bounded:
  assumes sh: "shaped m" and B: "0 \<le> B"
    and bnd: "\<forall>row \<in> set (vehicle_counts m). \<forall>x \<in> set row. \<bar>x\<bar> \<le> B"
    and run: "predict_congestion m = (Inr predicted, m')"
  shows "length predicted = nat (num_lanes m)" and "\<forall>p \<in> set predicted. 0 \<le> p \<and> p \<le> 5 * B"
proof -
  from predict_shaped [OF sh] obtain betas where
    len: "length betas = nat (num_lanes m)" and
    pr: "predict_congestion m =
        (Inr (map (\<lambda>beta. max (fst beta * real_of_int (history_length m) + snd beta) 0) betas), m)" and
    each: "\<forall>lane < nat (num_lanes m).
          lstsq (design (history_length m)) (lane_series m lane) = Inr (betas ! lane)"
    by blast
  have predicted:
    "predicted = map (\<lambda>beta. max (fst beta * real_of_int (history_length m) + snd beta) 0) betas"
    using pr run by simp
  show "length predicted = nat (num_lanes m)" using predicted len by simp
  have "\<bar>fst (betas ! lane) * real_of_int (history_length m) + snd (betas ! lane)\<bar> \<le> 5 * B"
    if "lane < nat (num_lanes m)" for lane
  proof -
    have l: "length (lane_series m lane) = nat (history_length m)"
      using sh by (simp add: shaped_def)
    show ?thesis
      using lstsq_design_forecast_bound [OF l lane_series_bounded [OF sh that bnd] B]
        each that by simp
  qed
  then have "\<forall>beta \<in> set betas. \<bar>fst beta * real_of_int (history_length m) + snd beta\<bar> \<le> 5 * B"
    using len by (metis in_set_conv_nth)
  then show "\<forall>p \<in> set predicted. 0 \<le> p \<and> p \<le> 5 * B"
    unfolding predicted using B by fastforce
qed

lemma simulate_step_result:
  assumes sh: "shaped m" and c: "0 \<le> cycle_length m"
    and B: "0 \<le> B" and room: "5 * real (nat (num_lanes m)) * B \<le> 2 ^ 1023"
    and bnd: "\<forall>row \<in> set (vehicle_counts m). \<forall>x \<in> set row. \<bar>x\<bar> \<le> B"
    and new: "\<forall>x \<in> set new_counts. \<bar>x\<bar> \<le> B"
    and run: "simulate_step m new_counts = (Inr r, m')"
  shows "sum_list (res_signal_timings r) = cycle_length m \<and>
         (\<forall>p \<in> set (predicted_counts r). 0 \<le> p) \<and>
         (\<forall>t \<in> set (res_signal_timings r). 0 \<le> t)"
  using sh
proof (cases rule: simulate_step_cases [where v = new_counts])
  case (fail e)
  then show ?thesis using run by simp
next
  case (ran m1 predicted m3)
  have r: "predicted_counts r = predicted" "res_signal_timings r = signal_timings m3"
    using ran(5) run by auto
  have L: "0 < num_lanes m1" using ran(2) by (simp add: shaped_def)
  note m1 = update_bounded [OF ran(1) bnd new]
  from predict_bounded [OF ran(2) B m1(1) ran(3)]
  have len: "length predicted = nat (num_lanes m)"
    and range: "\<forall>p \<in> set predicted. 0 \<le> p \<and> p \<le> 5 * B"
    using m1(3) by simp_all
  have nonneg: "\<forall>p \<in> set predicted. 0 \<le> p" using range by blast
  have "sum_list predicted \<le> real (length predicted) * (5 * B)"
    using range by (intro sum_list_le_length_times) blast
  then have small: "sum_list predicted \<le> 2 ^ 1023"
    using room len by (simp add: mult.assoc mult.left_commute)
  have st: "signal_timings m3 =
      (if sum_list predicted = 0
       then replicate (nat (num_lanes m1)) (cycle_length m / real_of_int (num_lanes m1))
       else map (\<lambda>p. p / sum_list predicted * cycle_length m) predicted)"
    using optimize_in_range [OF L nonneg small] ran(4) m1(2) by auto
  show ?thesis
  proof (cases "sum_list predicted = 0")
    case True
    then show ?thesis
      using st r nonneg L c by (simp add: sum_list_equal_split)
  next
    case False
    then have pos: "0 < sum_list predicted" using nonneg by (rule sum_list_nonneg_pos [rotated])
    have share: "signal_timings m3 = map (\<lambda>p. p / sum_list predicted * cycle_length m) predicted"
      using st False by (simp only: if_False)
    have "sum_list (signal_timings m3) = sum_list predicted / sum_list predicted * cycle_length m"
      unfolding share by (rule sum_list_scaled)
    then have "sum_list (signal_timings m3) = cycle_length m"
      using False by simp
    moreover have "\<forall>t \<in> set (signal_timings m3). 0 \<le> t"
      unfolding share using pos nonneg c by auto
    ultimately show ?thesis using r nonneg by simp
  qed
qed

section \<open>The claims\<close>

subsection \<open>C1: the forecast is the clamped least-squares line\<close>

text \<open>
  Claim C1. In every state of the right shape \<open>predict_congestion\<close> returns one component
  per lane and leaves the manager as it was. The component of a lane is \<open>max (slope * H +
  intercept) 0\<close>, where \<open>(slope, intercept)\<close> is what \<open>lstsq\<close> returns for the design matrix
  of the time indices \<open>0..H-1\<close> and the observations of that lane alone; that line is a
  least-squares fit of the lane's observations, and for a window of two or more steps it is
  the only one.
\<close>

theorem predict_congestion_least_squares:
  assumes "shaped m"
  shows "\<exists>betas. length betas = nat (num_lanes m) \<and>
      predict_congestion m =
        (Inr (map (\<lambda>beta. max (fst beta * real_of_int (history_length m) + snd beta) 0) betas), m) \<and>
      (\<forall>lane < nat (num_lanes m).
          lstsq (design (history_length m)) (lane_series m lane) = Inr (betas ! lane) \<and>
          least_squares_line (lane_series m lane) (betas ! lane) \<and>
          (2 \<le> history_length m \<longrightarrow>
             (\<forall>beta'. least_squares_line (lane_series m lane) beta' \<longrightarrow> beta' = betas ! lane)))"
  using assms by (rule predict_shaped)

text \<open>The theorem at \<open>example_manager\<close>, whose two lanes hold \<open>0, 1\<close> and \<open>0, 2\<close>.\<close>

theorem predict_congestion_least_squares_witness:
  "shaped example_manager \<and>
   (\<exists>betas. length betas = 2 \<and>
      predict_congestion example_manager =
        (Inr (map (\<lambda>beta. max (fst beta * 2 + snd beta) 0) betas), example_manager) \<and>
      least_squares_line (lane_series example_manager 0) (betas ! 0) \<and>
      least_squares_line (lane_series example_manager 1) (betas ! 1))"
proof -
  have sh: "shaped example_manager" by (rule example_manager_shaped)
  have L: "nat (num_lanes example_manager) = 2" and H: "history_length example_manager = 2"
    by (simp_all add: example_manager_def)
  from predict_congestion_least_squares [OF sh]
  obtain betas where "length betas = 2"
    "predict_congestion example_manager =
        (Inr (map (\<lambda>beta. max (fst beta * 2 + snd beta) 0) betas), example_manager)"
    "\<forall>lane < 2. least_squares_line (lane_series example_manager lane) (betas ! lane)"
    unfolding L H by auto
  then show ?thesis using sh by (intro conjI exI [of _ betas]) simp_all
qed

subsection \<open>C2: the timings sum to the cycle and nothing is negative\<close>

text \<open>
  Claim C2, as amended. The claim holds while no float overflows. Take a state of the
  right shape whose cycle length is not negative, and a bound \<open>B\<close> on the magnitude of every
  observation in the buffer and in the new vector, with \<open>5 * num_lanes * B \<le> 2 ^ 1023\<close>.
  Then \<open>simulate_step\<close> returns a result for every vector of one component per lane (the
  window being of at least one step), and whenever it returns a result, the signal timings
  of the result sum to \<open>cycle_length\<close> and every predicted count and every signal timing is
  at least 0. The forecast of a lane is at most \<open>5 * B\<close>, which keeps the forecasts and their
  sum in the range of the floats. Without rounding the sum is equal to the cycle length,
  which is within every tolerance.
\<close>

theorem simulate_step_cycle_conserved:
  assumes "shaped m" and "0 \<le> cycle_length m"
    and "0 \<le> B" and "5 * real (nat (num_lanes m)) * B \<le> 2 ^ 1023"
    and "\<forall>row \<in> set (vehicle_counts m). \<forall>x \<in> set row. \<bar>x\<bar> \<le> B"
    and "\<forall>x \<in> set new_counts. \<bar>x\<bar> \<le> B"
  shows "(0 < history_length m \<and> length new_counts = nat (num_lanes m) \<longrightarrow>
            (\<exists>r m'. simulate_step m new_counts = (Inr r, m'))) \<and>
         (\<forall>r m'. simulate_step m new_counts = (Inr r, m') \<longrightarrow>
            sum_list (res_signal_timings r) = cycle_length m \<and>
            (\<forall>p \<in> set (predicted_counts r). 0 \<le> p) \<and>
            (\<forall>t \<in> set (res_signal_timings r). 0 \<le> t))"
  using simulate_step_succeeds [OF assms(1)] simulate_step_result [OF assms]
  by blast

text \<open>The theorem at \<open>example_manager\<close> and the observation \<open>[3, 1]\<close>, with \<open>B = 3\<close>.\<close>

theorem simulate_step_cycle_conserved_witness:
  "shaped example_manager \<and> 0 \<le> cycle_length example_manager \<and>
   simulate_step example_manager [3, 1] =
     (Inr \<lparr>latest_counts = [3, 1], predicted_counts = [5, 0], res_signal_timings = [120, 0]\<rparr>,
      example_manager\<lparr>vehicle_counts := [[1, 2], [3, 1]], signal_timings := [120, 0]\<rparr>) \<and>
   sum_list [120, 0] = cycle_length example_manager"
proof -
  have sh: "shaped example_manager" by (rule example_manager_shaped)
  have c: "0 \<le> cycle_length example_manager" by (simp add: example_manager_def)
  have B: "(0::real) \<le> 3" by simp
  have room: "5 * real (nat (num_lanes example_manager)) * 3 \<le> 2 ^ 1023"
    by (simp add: example_manager_def)
  have bnd: "\<forall>row \<in> set (vehicle_counts example_manager). \<forall>x \<in> set row. \<bar>x\<bar> \<le> 3"
    by (simp add: example_manager_def)
  have new: "\<forall>x \<in> set [3, 1 :: real]. \<bar>x\<bar> \<le> 3" by simp
  have u: "update_vehicle_counts example_manager [3, 1] =
      (Inr (), example_manager\<lparr>vehicle_counts := [[1, 2], [3, 1]]\<rparr>)"
    unfolding example_manager_def by code_simp
  have p: "predict_congestion (example_manager\<lparr>vehicle_counts := [[1, 2], [3, 1]]\<rparr>) =
      (Inr [5, 0], example_manager\<lparr>vehicle_counts := [[1, 2], [3, 1]]\<rparr>)"
    unfolding example_manager_def by code_simp
  have o: "optimize_signal_timings (example_manager\<lparr>vehicle_counts := [[1, 2], [3, 1]]\<rparr>) [5, 0] =
      (Inr (), example_manager\<lparr>vehicle_counts := [[1, 2], [3, 1]], signal_timings := [120, 0]\<rparr>)"
    using optimize_in_range [of "example_manager\<lparr>vehicle_counts := [[1, 2], [3, 1]]\<rparr>" "[5, 0]"]
    by (simp add: example_manager_def)
  have step: "simulate_step example_manager [3, 1] =
     (Inr \<lparr>latest_counts = [3, 1], predicted_counts = [5, 0], res_signal_timings = [120, 0]\<rparr>,
      example_manager\<lparr>vehicle_counts := [[1, 2], [3, 1]], signal_timings := [120, 0]\<rparr>)"
    using simulate_step_run [OF u p o] by simp
  from simulate_step_cycle_conserved [OF sh c B room bnd new] sh c step show ?thesis by simp
qed

text \<open>
  The claim as stated, for every input, fails when the sum of the forecasts overflows. The
  manager of four lanes, a window of one step and a cycle of 100 seconds forecasts
  \<open>[2 ^ 1023, 2 ^ 1023, 2 ^ 1023, 0]\<close> from that observation; the float sum of the forecasts
  is infinite, every quotient by it is zero, and the timings \<open>[0, 0, 0, 0]\<close> sum to 0, not
  to 100.
\<close>

theorem sum_overflow_counterexample:
  "simulate_step four_lane_manager [2 ^ 1023, 2 ^ 1023, 2 ^ 1023, 0] =
     (Inr \<lparr>latest_counts = [2 ^ 1023, 2 ^ 1023, 2 ^ 1023, 0],
           predicted_counts = [2 ^ 1023, 2 ^ 1023, 2 ^ 1023, 0],
           res_signal_timings = [0, 0, 0, 0]\<rparr>,
      four_lane_manager\<lparr>vehicle_counts := [[2 ^ 1023, 2 ^ 1023, 2 ^ 1023, 0]],
                          signal_timings := [0, 0, 0, 0]\<rparr>) \<and>
   sum_list [0, 0, 0, 0] \<noteq> cycle_length four_lane_manager"
proof -
  let ?v = "[2 ^ 1023, 2 ^ 1023, 2 ^ 1023, 0 :: real]"
  let ?m1 = "four_lane_manager\<lparr>vehicle_counts := [?v]\<rparr>"
  have sh: "shaped four_lane_manager" by (simp add: shaped_def four_lane_manager_def)
  have u: "update_vehicle_counts four_lane_manager ?v = (Inr (), ?m1)"
    using update_ok [OF sh, of ?v] by (simp add: four_lane_manager_def)
  have sh1: "shaped ?m1" by (simp add: shaped_def four_lane_manager_def)
  have fit: "lstsq (design 1) [x] = Inr (0, x)" for x
    using lstsq_one_observation [of x] by blast
  have p: "predict_congestion ?m1 = (Inr ?v, ?m1)"
    by (simp add: predict_congestion_def np_zeros_def np_ones_def np_full_def np_arange_def
        four_lane_manager_def column_def dot_def numeral_eq_Suc
        fit [unfolded design_def np_arange_def, simplified])
  have o: "optimize_signal_timings ?m1 ?v = (Inr (), ?m1\<lparr>signal_timings := [0, 0, 0, 0]\<rparr>)"
    by (simp add: optimize_signal_timings_def np_sum_def overflow_def float_overflow_def
        four_lane_manager_def)
  from simulate_step_run [OF u p o] show ?thesis
    by (simp add: four_lane_manager_def)
qed

subsection \<open>C3: equal split on a zero total, proportional split otherwise\<close>

text \<open>
  Claim C3, as amended. \<open>optimize_signal_timings\<close> compares the total of the predictions
  with zero exactly; it applies no tolerance. For a manager with at least one lane and a
  vector of non-negative predictions, one per lane, the call succeeds. When the total is
  exactly zero every lane gets \<open>cycle_length / num_lanes\<close>. Otherwise lane \<open>i\<close> gets
  \<open>predicted[i] / total * cycle_length\<close> with the float total: that is the exact proportion
  while the sum of the predictions is at most \<open>2 ^ 1023\<close>, and it is 0 for every lane once
  the sum has overflowed to infinity, which it has from \<open>2 ^ 1025\<close> on. In both cases a lane
  predicted at zero gets zero seconds.
\<close>

theorem optimize_signal_timings_split:
  assumes "0 < num_lanes m" and "length predicted = nat (num_lanes m)"
    and "\<forall>p \<in> set predicted. 0 \<le> p"
  shows "\<exists>m'. optimize_signal_timings m predicted = (Inr (), m') \<and>
      length (signal_timings m') = nat (num_lanes m) \<and>
      (sum_list predicted = 0 \<longrightarrow>
         (\<forall>lane < nat (num_lanes m).
             signal_timings m' ! lane = cycle_length m / real_of_int (num_lanes m))) \<and>
      (0 < sum_list predicted \<and> sum_list predicted \<le> 2 ^ 1023 \<longrightarrow>
         (\<forall>lane < nat (num_lanes m).
             signal_timings m' ! lane = predicted ! lane / sum_list predicted * cycle_length m)) \<and>
      (2 ^ 1025 \<le> sum_list predicted \<longrightarrow>
         (\<forall>lane < nat (num_lanes m). signal_timings m' ! lane = 0)) \<and>
      (\<forall>lane < nat (num_lanes m).
          sum_list predicted \<noteq> 0 \<and> predicted ! lane = 0 \<longrightarrow> signal_timings m' ! lane = 0)"
proof -
  let ?st = "if np_sum predicted = Finite 0
         then replicate (nat (num_lanes m)) (cycle_length m / real_of_int (num_lanes m))
         else map (\<lambda>p. div_total p (np_sum predicted) * cycle_length m) predicted"
  have run: "optimize_signal_timings m predicted = (Inr (), m\<lparr>signal_timings := ?st\<rparr>)"
    using assms(1) by (rule optimize_run)
  have zero: "np_sum predicted = Finite 0 \<longleftrightarrow> sum_list predicted = 0"
    using assms(3) by (rule np_sum_zero_iff)
  have len: "length ?st = nat (num_lanes m)" using assms(2) by simp
  have a: "?st ! lane = cycle_length m / real_of_int (num_lanes m)"
    if "sum_list predicted = 0" "lane < nat (num_lanes m)" for lane
    using that zero by simp
  have b: "?st ! lane = predicted ! lane / sum_list predicted * cycle_length m"
    if "0 < sum_list predicted" "sum_list predicted \<le> 2 ^ 1023" "lane < nat (num_lanes m)" for lane
    using that np_sum_in_range [OF assms(3) that(2)] assms(2) by simp
  have c: "?st ! lane = 0" if "2 ^ 1025 \<le> sum_list predicted" "lane < nat (num_lanes m)" for lane
    using that np_sum_overflows [OF assms(3) that(1)] assms(2) by simp
  have d: "?st ! lane = 0"
    if "sum_list predicted \<noteq> 0" "predicted ! lane = 0" "lane < nat (num_lanes m)" for lane
  proof -
    have "div_total 0 (np_sum predicted) = 0" by (cases "np_sum predicted") simp_all
    then show ?thesis using that zero assms(2) by simp
  qed
  from run len a b c d show ?thesis by (intro exI [of _ "m\<lparr>signal_timings := ?st\<rparr>"]) simp
qed

text \<open>The theorem at the specification's example: predictions \<open>[30, 10, 0, 0]\<close> and a
  cycle of 100 seconds give \<open>75, 25, 0, 0\<close>.\<close>

theorem optimize_signal_timings_split_witness:
  "0 < num_lanes four_lane_manager \<and>
   length [30, 10, 0, 0 :: real] = nat (num_lanes four_lane_manager) \<and>
   (\<exists>m'. optimize_signal_timings four_lane_manager [30, 10, 0, 0] = (Inr (), m') \<and>
      signal_timings m' ! 0 = 75 \<and> signal_timings m' ! 1 = 25 \<and>
      signal_timings m' ! 2 = 0 \<and> signal_timings m' ! 3 = 0)"
proof -
  have L: "0 < num_lanes four_lane_manager"
    and len: "length [30, 10, 0, 0 :: real] = nat (num_lanes four_lane_manager)"
    and nonneg: "\<forall>p \<in> set [30, 10, 0, 0 :: real]. 0 \<le> p"
    by (simp_all add: four_lane_manager_def)
  have range: "0 < sum_list [30, 10, 0, 0 :: real] \<and> sum_list [30, 10, 0, 0 :: real] \<le> 2 ^ 1023"
    by simp
  from optimize_signal_timings_split [OF L len nonneg] range
  obtain m' where run: "optimize_signal_timings four_lane_manager [30, 10, 0, 0] = (Inr (), m')"
    and each: "\<forall>lane < nat (num_lanes four_lane_manager).
          signal_timings m' ! lane =
            [30, 10, 0, 0] ! lane / sum_list [30, 10, 0, 0] * cycle_length four_lane_manager"
    by blast
  have n: "nat (num_lanes four_lane_manager) = 4" "cycle_length four_lane_manager = 100"
    by (simp_all add: four_lane_manager_def)
  have "signal_timings m' ! 0 = 75" "signal_timings m' ! 1 = 25"
       "signal_timings m' ! 2 = 0" "signal_timings m' ! 3 = 0"
    using each [rule_format, of 0] each [rule_format, of 1]
      each [rule_format, of 2] each [rule_format, of 3]
    unfolding n by simp_all
  with L len run show ?thesis by blast
qed

text \<open>
  The claim as stated fails in two places. With a tolerance around zero: the total of
  \<open>[1 / 10 ^ 10, 0]\<close> is within \<open>1 / 10 ^ 9\<close> of zero, and the code still splits in
  proportion, \<open>[120, 0]\<close>, where an equal split is \<open>[60, 60]\<close>; the same happens for every
  positive tolerance. With the total taken as the exact sum: for the predictions
  \<open>[2 ^ 1023, 2 ^ 1023, 2 ^ 1023, 0]\<close> the float total is infinite and every lane gets 0
  seconds, where the exact proportion of the first lane is a third of the cycle.
\<close>

theorem near_zero_total_counterexample:
  "\<bar>sum_list [1 / 10 ^ 10, 0 :: real]\<bar> \<le> 1 / 10 ^ 9 \<and>
   optimize_signal_timings example_manager [1 / 10 ^ 10, 0] =
     (Inr (), example_manager\<lparr>signal_timings := [120, 0]\<rparr>) \<and>
   [120, 0] \<noteq> replicate 2 (cycle_length example_manager / 2) \<and>
   optimize_signal_timings four_lane_manager [2 ^ 1023, 2 ^ 1023, 2 ^ 1023, 0] =
     (Inr (), four_lane_manager\<lparr>signal_timings := [0, 0, 0, 0]\<rparr>) \<and>
   2 ^ 1023 / sum_list [2 ^ 1023, 2 ^ 1023, 2 ^ 1023, 0] * cycle_length four_lane_manager
     \<noteq> (0::real)"
proof -
  have a: "optimize_signal_timings example_manager [1 / 10 ^ 10, 0] =
     (Inr (), example_manager\<lparr>signal_timings := [120, 0]\<rparr>)"
    using optimize_in_range [of example_manager "[1 / 10 ^ 10, 0]"]
    by (simp add: example_manager_def)
  have b: "optimize_signal_timings four_lane_manager [2 ^ 1023, 2 ^ 1023, 2 ^ 1023, 0] =
     (Inr (), four_lane_manager\<lparr>signal_timings := [0, 0, 0, 0]\<rparr>)"
    by (simp add: optimize_signal_timings_def np_sum_def overflow_def float_overflow_def
        four_lane_manager_def)
  from a b show ?thesis by (simp add: example_manager_def four_lane_manager_def numeral_eq_Suc)
qed

subsection \<open>C4: the buffer is a sliding window of \<open>H\<close> rows\<close>

text \<open>
  Claim C4. In a state of the right shape with a window of at least one step, an update with
  a vector of one component per lane succeeds, drops row 0 and stores the vector as row
  \<open>H - 1\<close>; every row kept moves one index down, so the order of arrival is preserved. The
  buffer has \<open>H\<close> rows after every update, also after one that raises. After \<open>H + 1\<close>
  updates the buffer holds the last \<open>H\<close> vectors, and its oldest row is the second vector
  submitted.
\<close>

theorem update_vehicle_counts_sliding_window:
  assumes "shaped m" and "0 < history_length m"
    and "length v = nat (num_lanes m)"
    and "\<forall>u \<in> set vs. length u = nat (num_lanes m)"
    and "length vs = nat (history_length m) + 1"
  shows "update_vehicle_counts m v = (Inr (), m\<lparr>vehicle_counts := tl (vehicle_counts m) @ [v]\<rparr>) \<and>
     length (tl (vehicle_counts m) @ [v]) = nat (history_length m) \<and>
     (tl (vehicle_counts m) @ [v]) ! (nat (history_length m) - 1) = v \<and>
     (\<forall>k. k + 1 < nat (history_length m) \<longrightarrow>
          (tl (vehicle_counts m) @ [v]) ! k = vehicle_counts m ! (k + 1)) \<and>
     length (vehicle_counts (snd (update_vehicle_counts m w))) = nat (history_length m) \<and>
     (\<exists>m'. update_all m vs = (Inr (), m') \<and> vehicle_counts m' = tl vs \<and>
           hd (vehicle_counts m') = vs ! 1)"
proof -
  let ?vc = "vehicle_counts m"
  have len: "length ?vc = nat (history_length m)" and ne: "?vc \<noteq> []"
    using assms(1,2) by (auto simp: shaped_def)
  have a: "update_vehicle_counts m v = (Inr (), m\<lparr>vehicle_counts := tl ?vc @ [v]\<rparr>)"
    using assms(1,2,3) by (rule update_ok)
  have b: "length (tl ?vc @ [v]) = nat (history_length m)"
    using len assms(2) by simp
  have c: "(tl ?vc @ [v]) ! (nat (history_length m) - 1) = v"
    using len by (simp add: nth_append)
  have d: "(tl ?vc @ [v]) ! k = ?vc ! (k + 1)" if "k + 1 < nat (history_length m)" for k
  proof -
    have "k < length (tl ?vc)" using that len by simp
    then show ?thesis by (simp add: nth_append nth_tl)
  qed
  have e: "length (vehicle_counts (snd (update_vehicle_counts m w))) = nat (history_length m)"
  proof -
    have "shaped (snd (update_vehicle_counts m w))"
      using assms(1) by (rule update_buffer_shape)
    moreover have "history_length (snd (update_vehicle_counts m w)) = history_length m"
      by (cases rule: update_cases [where m = m and v = w]) auto
    ultimately show ?thesis by (simp add: shaped_def)
  qed
  have win: "update_all m vs = (Inr (), m\<lparr>vehicle_counts := drop (length vs) (?vc @ vs)\<rparr>)"
    using assms(1,2,4) by (rule update_all_window)
  have "drop (length vs) (?vc @ vs) = drop 1 vs"
    using assms(5) len by simp
  then have f1: "drop (length vs) (?vc @ vs) = tl vs"
    by (simp add: drop_Suc)
  have "1 < length vs" using assms(2,5) by simp
  then have f2: "hd (tl vs) = vs ! 1"
    by (cases vs) (auto simp: hd_conv_nth)
  from a b c d e win f1 f2 show ?thesis by simp
qed

text \<open>The theorem at \<open>example_manager\<close>: one update, and three updates for a window of two.\<close>

theorem update_vehicle_counts_sliding_window_witness:
  "shaped example_manager \<and> 0 < history_length example_manager \<and>
   update_vehicle_counts example_manager [3, 1] =
     (Inr (), example_manager\<lparr>vehicle_counts := [[1, 2], [3, 1]]\<rparr>) \<and>
   (\<exists>m'. update_all example_manager [[5, 6], [7, 8], [9, 10]] = (Inr (), m') \<and>
         vehicle_counts m' = [[7, 8], [9, 10]] \<and> hd (vehicle_counts m') = [7, 8])"
proof -
  have sh: "shaped example_manager" by (rule example_manager_shaped)
  have H: "0 < history_length example_manager"
    and v: "length [3, 1 :: real] = nat (num_lanes example_manager)"
    and vs: "\<forall>u \<in> set [[5, 6], [7, 8], [9, 10 :: real]]. length u = nat (num_lanes example_manager)"
    and n: "length [[5, 6], [7, 8], [9, 10 :: real]] = nat (history_length example_manager) + 1"
    by (simp_all add: example_manager_def)
  have vc: "tl (vehicle_counts example_manager) = [[1, 2]]"
    by (simp add: example_manager_def)
  from update_vehicle_counts_sliding_window [OF sh H v vs n] sh H vc
  show ?thesis by simp
qed

subsection \<open>C5: a vector of the wrong length\<close>

text \<open>
  Claim C5, as amended. The class checks no length. In a state of the right shape with a
  window of at least one step, a vector whose length is neither \<open>num_lanes\<close> nor 1 makes
  \<open>update_vehicle_counts\<close> and \<open>simulate_step\<close> raise \<open>ValueError\<close>, from numpy's broadcasting,
  after the rows have been shifted: every row but the last has taken the value of its
  successor and the last row has stayed, so the oldest row is lost and the newest row is
  held twice (a window of one step keeps its single row). The configuration and the signal
  timings are as before, and \<open>simulate_step\<close> computes no prediction and no timings.
\<close>

theorem wrong_length_raises_after_shift:
  assumes "shaped m" and "0 < history_length m"
    and "length v \<noteq> nat (num_lanes m)" and "length v \<noteq> 1"
  shows "update_vehicle_counts m v =
       (Inl ValueError, m\<lparr>vehicle_counts := tl (vehicle_counts m) @ [last (vehicle_counts m)]\<rparr>) \<and>
     simulate_step m v =
       (Inl ValueError, m\<lparr>vehicle_counts := tl (vehicle_counts m) @ [last (vehicle_counts m)]\<rparr>)"
  using update_wrong_length [OF assms] by (simp add: simulate_step_def)

text \<open>The theorem at \<open>example_manager\<close> and a vector of three components.\<close>

theorem wrong_length_raises_after_shift_witness:
  "shaped example_manager \<and> 0 < history_length example_manager \<and>
   length [7, 8, 9 :: real] \<noteq> nat (num_lanes example_manager) \<and>
   update_vehicle_counts example_manager [7, 8, 9] =
     (Inl ValueError, example_manager\<lparr>vehicle_counts := [[1, 2], [1, 2]]\<rparr>) \<and>
   simulate_step example_manager [7, 8, 9] =
     (Inl ValueError, example_manager\<lparr>vehicle_counts := [[1, 2], [1, 2]]\<rparr>)"
proof -
  have sh: "shaped example_manager" by (rule example_manager_shaped)
  have H: "0 < history_length example_manager"
    and l: "length [7, 8, 9 :: real] \<noteq> nat (num_lanes example_manager)"
    and l1: "length [7, 8, 9 :: real] \<noteq> 1"
    by (simp_all add: example_manager_def)
  have vc: "tl (vehicle_counts example_manager) @ [last (vehicle_counts example_manager)]
      = [[1, 2], [1, 2]]"
    by (simp add: example_manager_def)
  from wrong_length_raises_after_shift [OF sh H l l1] sh H l show ?thesis
    unfolding vc by simp
qed

text \<open>
  The claim as stated fails twice at \<open>example_manager\<close>: the vector \<open>[7, 8, 9]\<close> raises, and
  the buffer \<open>[[0, 0], [1, 2]]\<close> has become \<open>[[1, 2], [1, 2]]\<close>; the vector \<open>[7]\<close>, of length
  1 for two lanes, raises nothing and is stored as \<open>[7, 7]\<close>.
\<close>

theorem wrong_length_counterexample:
  "update_vehicle_counts example_manager [7, 8, 9] =
     (Inl ValueError, example_manager\<lparr>vehicle_counts := [[1, 2], [1, 2]]\<rparr>) \<and>
   simulate_step example_manager [7, 8, 9] =
     (Inl ValueError, example_manager\<lparr>vehicle_counts := [[1, 2], [1, 2]]\<rparr>) \<and>
   vehicle_counts example_manager = [[0, 0], [1, 2]] \<and>
   update_vehicle_counts example_manager [7] =
     (Inr (), example_manager\<lparr>vehicle_counts := [[1, 2], [7, 7]]\<rparr>)"
  unfolding example_manager_def by code_simp

subsection \<open>C6: a constant history\<close>

text \<open>
  Claim C6. In a state of the right shape with a window of at least one step, when every
  observation of a lane is the same value \<open>v\<close>, the solver returns the line of slope 0 and
  intercept \<open>v\<close> for that lane, and \<open>predict_congestion\<close> succeeds with \<open>max v 0\<close> as the
  lane's forecast. In particular the manager built with 3 lanes, a window of 5 steps and a
  cycle of 120 seconds, after five steps with \<open>[10, 10, 10]\<close>, predicts \<open>[10, 10, 10]\<close> and
  sets the timings \<open>[40, 40, 40]\<close>.
\<close>

theorem constant_history_prediction:
  assumes "shaped m" and "0 < history_length m" and "lane < nat (num_lanes m)"
    and "\<forall>row \<in> set (vehicle_counts m). row ! lane = v"
  shows "lstsq (design (history_length m)) (lane_series m lane) = Inr (0, v) \<and>
     (\<exists>predicted. predict_congestion m = (Inr predicted, m) \<and> predicted ! lane = max v 0) \<and>
     (\<exists>m0 rs m'. init 3 5 120 = Inr m0 \<and>
        simulate_steps m0 (replicate 5 [10, 10, 10]) = (Inr rs, m') \<and> length rs = 5 \<and>
        predicted_counts (last rs) = [10, 10, 10] \<and>
        res_signal_timings (last rs) = [40, 40, 40])"
proof -
  have example: "\<exists>m0 rs m'. init 3 5 120 = Inr m0 \<and>
        simulate_steps m0 (replicate 5 [10, 10, 10]) = (Inr rs, m') \<and> length rs = 5 \<and>
        predicted_counts (last rs) = [10, 10, 10] \<and>
        res_signal_timings (last rs) = [40, 40, 40]"
  proof -
    obtain m0 where i: "init 3 5 120 = Inr m0"
      using steady_state_run by (cases "init 3 5 120") auto
    obtain r m' where st: "simulate_steps m0 (replicate 5 [10, 10, 10]) = (r, m')"
      by (cases "simulate_steps m0 (replicate 5 [10, 10, 10])")
    obtain rs where "r = Inr rs" "length rs = 5" "predicted_counts (last rs) = [10, 10, 10]"
      "res_signal_timings (last rs) = [40, 40, 40]"
      using steady_state_run i st by (cases r) auto
    with i st show ?thesis by blast
  qed
  have "lane_series m lane = replicate (length (vehicle_counts m)) v"
    unfolding lane_series_def using assms(4) by (simp add: map_replicate_const [symmetric] cong: map_cong)
  then have series: "lane_series m lane = replicate (nat (history_length m)) v"
    using assms(1) by (simp add: shaped_def)
  have fit: "lstsq (design (history_length m)) (lane_series m lane) = Inr (0, v)"
    unfolding series using assms(2) by (rule constant_series_fit)
  from predict_shaped [OF assms(1)] obtain betas where
    len: "length betas = nat (num_lanes m)" and
    run: "predict_congestion m =
        (Inr (map (\<lambda>beta. max (fst beta * real_of_int (history_length m) + snd beta) 0) betas), m)" and
    each: "\<forall>lane < nat (num_lanes m).
          lstsq (design (history_length m)) (lane_series m lane) = Inr (betas ! lane)"
    by blast
  have "betas ! lane = (0, v)" using each assms(3) fit by auto
  then have "map (\<lambda>beta. max (fst beta * real_of_int (history_length m) + snd beta) 0) betas ! lane
      = max v 0"
    using len assms(3) by simp
  with run fit example show ?thesis by blast
qed

text \<open>The theorem at \<open>steady_manager\<close>, the state those five steps end in.\<close>

theorem constant_history_prediction_witness:
  "shaped steady_manager \<and> 0 < history_length steady_manager \<and>
   (\<exists>predicted. predict_congestion steady_manager = (Inr predicted, steady_manager) \<and>
      predicted ! 0 = 10 \<and> predicted ! 1 = 10 \<and> predicted ! 2 = 10)"
proof -
  have sh: "shaped steady_manager" by (rule steady_manager_shaped)
  have H: "0 < history_length steady_manager" by (simp add: steady_manager_def)
  have l: "0 < nat (num_lanes steady_manager)" "1 < nat (num_lanes steady_manager)"
    "2 < nat (num_lanes steady_manager)"
    by (simp_all add: steady_manager_def)
  have c: "\<forall>row \<in> set (vehicle_counts steady_manager). row ! 0 = 10"
    "\<forall>row \<in> set (vehicle_counts steady_manager). row ! 1 = 10"
    "\<forall>row \<in> set (vehicle_counts steady_manager). row ! 2 = 10"
    by (simp_all add: steady_manager_def)
  from constant_history_prediction [OF sh H l(1) c(1)]
    constant_history_prediction [OF sh H l(2) c(2)]
    constant_history_prediction [OF sh H l(3) c(3)]
  show ?thesis using sh H by auto
qed

subsection \<open>C7: predicting twice\<close>

text \<open>
  Claim C7. \<open>predict_congestion\<close> leaves the manager as it found it, so a second call with
  no update in between returns the same result as the first.
\<close>

theorem predict_congestion_repeatable:
  assumes "predict_congestion m = (r, m')"
  shows "m' = m \<and> predict_congestion m' = (r, m')"
proof -
  have "m' = m" using predict_congestion_state [of m] assms by simp
  then show ?thesis using assms by simp
qed

text \<open>The theorem at \<open>example_manager\<close>, whose forecast is \<open>[2, 4]\<close>.\<close>

theorem predict_congestion_repeatable_witness:
  "predict_congestion example_manager = (Inr [2, 4], example_manager) \<and>
   predict_congestion (snd (predict_congestion example_manager)) = (Inr [2, 4], example_manager)"
proof -
  have run: "predict_congestion example_manager = (Inr [2, 4], example_manager)"
    unfolding example_manager_def by code_simp
  from predict_congestion_repeatable [OF run] run show ?thesis by simp
qed

subsection \<open>C8: construction with an invalid configuration\<close>

text \<open>
  Claim C8, as amended. The constructor validates nothing; it fails where numpy or the
  division does. Construction fails whenever \<open>num_lanes\<close> is not positive (numpy refuses a
  negative dimension, and the division by zero lanes raises) and whenever \<open>history_length\<close>
  is negative. Nothing is claimed for a window of zero steps or a cycle length that is zero
  or negative: the constructor accepts them.
\<close>

theorem init_fails_when_invalid:
  assumes "L \<le> 0 \<or> H < 0"
  shows "\<exists>e. init L H c = Inl e"
  using assms by (auto simp: init_def np_zeros2_def py_truediv_def np_full_def)

text \<open>The theorem at zero lanes, at a negative lane count and at a negative window.\<close>

theorem init_fails_when_invalid_witness:
  "(\<exists>e. init 0 10 120 = Inl e) \<and> (\<exists>e. init (- 1) 10 120 = Inl e) \<and>
   (\<exists>e. init 4 (- 1) 120 = Inl e)"
  using init_fails_when_invalid [of 0 10 120] init_fails_when_invalid [of "- 1" 10 120]
    init_fails_when_invalid [of 4 "- 1" 120]
  by simp

text \<open>
  The claim as stated fails: a cycle of \<open>-120\<close> seconds gives a manager whose timings are
  \<open>-30\<close> each, and a window of zero steps gives a manager with an empty buffer.
\<close>

theorem init_accepts_invalid_counterexample:
  "init 4 10 (- 120) =
     Inr \<lparr>num_lanes = 4, history_length = 10, cycle_length = - 120,
          vehicle_counts = replicate 10 [0, 0, 0, 0],
          signal_timings = [- 30, - 30, - 30, - 30]\<rparr> \<and>
   init 4 0 120 =
     Inr \<lparr>num_lanes = 4, history_length = 0, cycle_length = 120,
          vehicle_counts = [], signal_timings = [30, 30, 30, 30]\<rparr>"
  by code_simp

subsection \<open>C9: which method writes which field\<close>

text \<open>
  Claim C9, as amended. \<open>predict_congestion\<close> changes nothing. \<open>optimize_signal_timings\<close>
  does change the manager: it assigns the field \<open>signal_timings\<close>, and nothing else. The
  buffer is written by \<open>update_vehicle_counts\<close> only: after \<open>simulate_step\<close> it is what the
  update within the step left.
\<close>

theorem only_update_touches_buffer:
  "snd (predict_congestion m) = m \<and>
   (\<exists>st. snd (optimize_signal_timings m predicted) = m\<lparr>signal_timings := st\<rparr>) \<and>
   vehicle_counts (snd (simulate_step m v)) = vehicle_counts (snd (update_vehicle_counts m v))"
proof -
  have "vehicle_counts (snd (simulate_step m v)) = vehicle_counts (snd (update_vehicle_counts m v))"
  proof (cases "update_vehicle_counts m v")
    case (Pair r m1)
    show ?thesis
    proof (cases r)
      case (Inl e)
      then show ?thesis using Pair by (simp add: simulate_step_def)
    next
      case (Inr u)
      obtain p m2 where pr: "predict_congestion m1 = (p, m2)" by (cases "predict_congestion m1")
      then have m2: "m2 = m1" using predict_congestion_state [of m1] by simp
      show ?thesis
      proof (cases p)
        case (Inl e)
        then show ?thesis using Pair Inr pr m2 by (simp add: simulate_step_def)
      next
        case (Inr predicted')
        obtain st where "snd (optimize_signal_timings m1 predicted') = m1\<lparr>signal_timings := st\<rparr>"
          using optimize_frame by blast
        then show ?thesis using Pair \<open>r = Inr u\<close> Inr pr m2
          by (auto simp: simulate_step_def split: prod.splits sum.splits)
      qed
    qed
  qed
  then show ?thesis using optimize_frame [of m predicted] by simp
qed

text \<open>The theorem at \<open>example_manager\<close>.\<close>

theorem only_update_touches_buffer_witness:
  "snd (predict_congestion example_manager) = example_manager \<and>
   (\<exists>st. snd (optimize_signal_timings example_manager [30, 10]) =
      example_manager\<lparr>signal_timings := st\<rparr>)"
  using only_update_touches_buffer [of example_manager "[30, 10]" "[3, 1]"] by simp

text \<open>
  The claim as stated fails: allocation for the predictions \<open>[30, 10]\<close> replaces the timings
  \<open>[60, 60]\<close> of \<open>example_manager\<close> by \<open>[90, 30]\<close>.
\<close>

theorem optimize_changes_state_counterexample:
  "optimize_signal_timings example_manager [30, 10] =
     (Inr (), example_manager\<lparr>signal_timings := [90, 30]\<rparr>) \<and>
   signal_timings example_manager = [60, 60] \<and>
   snd (optimize_signal_timings example_manager [30, 10]) \<noteq> example_manager"
proof -
  have "optimize_signal_timings example_manager [30, 10] =
     (Inr (), example_manager\<lparr>signal_timings := [90, 30]\<rparr>)"
    using optimize_in_range [of example_manager "[30, 10]"]
    by (simp add: example_manager_def)
  then show ?thesis by (simp add: example_manager_def)
qed

subsection \<open>C10: the state after construction\<close>

text \<open>
  Claim C10. With a positive lane count, window and cycle length, every manager that the
  constructor returns has signal timings of \<open>cycle_length / num_lanes\<close> for every lane and a
  buffer that is the matrix of \<open>history_length\<close> rows and \<open>num_lanes\<close> columns of zeros; and
  the constructor does return a manager when the buffer is of a size numpy can hold,
  \<open>8 * history_length * num_lanes < 2 ^ 63\<close> bytes.
\<close>

theorem init_state:
  assumes "0 < L" and "0 < H" and "0 < c"
  shows "(8 * H * L < 2 ^ 63 \<longrightarrow> (\<exists>m. init L H c = Inr m)) \<and>
     (\<forall>m. init L H c = Inr m \<longrightarrow>
        num_lanes m = L \<and> history_length m = H \<and> cycle_length m = c \<and>
        signal_timings m = replicate (nat L) (c / real_of_int L) \<and>
        (\<forall>lane < nat L. signal_timings m ! lane = c / real_of_int L) \<and>
        vehicle_counts m = replicate (nat H) (replicate (nat L) 0))"
proof -
  have "array_too_big [H, L] \<longleftrightarrow> \<not> 8 * H * L < 2 ^ 63"
    using assms by (auto simp: array_too_big_def)
  then show ?thesis using assms by (auto simp: init_Inr)
qed

text \<open>The theorem at the default configuration of four lanes, ten steps and 120 seconds.\<close>

theorem init_state_witness:
  "(0::int) < 4 \<and> (0::int) < 10 \<and> (0::real) < 120 \<and>
   (\<exists>m. init 4 10 120 = Inr m \<and> signal_timings m = [30, 30, 30, 30] \<and>
      vehicle_counts m = replicate 10 [0, 0, 0, 0])"
proof -
  have h: "(0::int) < 4" "(0::int) < 10" "(0::real) < 120" by simp_all
  have fits: "8 * 10 * 4 < (2::int) ^ 63" by simp
  from init_state [OF h] fits obtain m where m: "init 4 10 120 = Inr m"
    by blast
  with init_state [OF h] have
    "signal_timings m = replicate (nat 4) (120 / real_of_int 4)"
    "vehicle_counts m = replicate (nat 10) (replicate (nat 4) 0)"
    by blast+
  moreover have "replicate (nat 4) (120 / real_of_int 4) = [30, 30, 30, 30 :: real]"
    by (simp add: numeral_eq_Suc)
  moreover have "replicate (nat 4) (0::real) = [0, 0, 0, 0]"
    by (simp add: numeral_eq_Suc)
  ultimately show ?thesis using m by auto
qed

end
